theory Spec2Isabelle
  imports Main "HOL-Library.Sublist" "HOL-Library.Multiset"
    "HOL-Library.Char_ord" "HOL-Library.List_Lexorder"
begin

section \<open>JavaScript strings and objects\<close>

text \<open>
  A string is a list of code units. The model keeps to code units below 256 (type
  \<^typ>\<open>char\<close>); \<open>is_ws\<close> lists the code units in that range that
  \<open>String.prototype.trim\<close> removes (tab, line feed, vertical tab, form feed, carriage
  return, space, no-break space).
\<close>

definition is_ws :: "char \<Rightarrow> bool" where
  "is_ws c = (c \<in> set [CHR 0x09, CHR 0x0A, CHR 0x0B, CHR 0x0C, CHR 0x0D, CHR 0x20, CHR 0xA0])"

definition trim :: "string \<Rightarrow> string" where
  "trim s = rev (dropWhile is_ws (rev (dropWhile is_ws s)))"

text \<open>\<open>find_at pat s\<close>: the least index at which \<open>pat\<close> occurs in \<open>s\<close>.\<close>

primrec find_at :: "string \<Rightarrow> string \<Rightarrow> nat option" where
  "find_at pat [] = (if pat = [] then Some 0 else None)"
| "find_at pat (c # cs) =
     (if prefix pat (c # cs) then Some 0 else map_option Suc (find_at pat cs))"

text \<open>
  \<open>s.indexOf(pat, from)\<close>: the search starts at \<open>min from (length s)\<close>; \<open>None\<close> is
  the result \<open>-1\<close>.
\<close>

definition indexOf :: "string \<Rightarrow> string \<Rightarrow> nat \<Rightarrow> nat option" where
  "indexOf s pat from =
     map_option (\<lambda>i. i + min from (length s)) (find_at pat (drop from s))"

text \<open>\<open>s.substring(a, b)\<close> swaps its arguments when \<open>a > b\<close> and clamps both to the length.\<close>

definition substring :: "string \<Rightarrow> nat \<Rightarrow> nat \<Rightarrow> string" where
  "substring s a b = take (max a b - min a b) (drop (min a b) s)"

definition substringFrom :: "string \<Rightarrow> nat \<Rightarrow> string" where
  "substringFrom s a = drop a s"

text \<open>\<open>s.split(d)\<close> for a one-character separator: never empty, \<open>''''\<close> gives \<open>['''']\<close>.\<close>

fun split :: "char \<Rightarrow> string \<Rightarrow> string list" where
  "split d [] = [[]]"
| "split d (c # cs) =
     (if c = d then [] # split d cs
      else (case split d cs of [] \<Rightarrow> [[c]] | w # ws \<Rightarrow> (c # w) # ws))"

text \<open>
  A plain object (\<open>Record<string, T>\<close>) is its list of own properties in the order of
  their creation, with pairwise distinct keys. An assignment \<open>o[k] = v\<close> replaces the
  value of an existing key where it stands and appends a new key. The order in which
  JavaScript enumerates the properties (\<open>Object.entries\<close>, \<open>for ... in\<close>) is
  \<open>objectEntries\<close> below. Keys are taken not to be names of \<open>Object.prototype\<close> members.
\<close>

type_synonym 'v obj = "(string \<times> 'v) list"

fun obj_set :: "'v obj \<Rightarrow> string \<Rightarrow> 'v \<Rightarrow> 'v obj" where
  "obj_set [] k v = [(k, v)]"
| "obj_set ((k', v') # kvs) k v =
     (if k' = k then (k, v) # kvs else (k', v') # obj_set kvs k v)"

text \<open>\<open>{...a, ...b}\<close>\<close>

definition obj_spread :: "'v obj \<Rightarrow> 'v obj \<Rightarrow> 'v obj" where
  "obj_spread a b = fold (\<lambda>(k, v) acc. obj_set acc k v) b a"

text \<open>
  \<open>Array.prototype.sort\<close> with a comparator: a stable sort, here by insertion. An element
  goes in front of the first one it does not compare greater than, and the elements are
  inserted from the right, so equal elements keep their order.
\<close>

fun insort_cmp :: "('a \<Rightarrow> 'a \<Rightarrow> int) \<Rightarrow> 'a \<Rightarrow> 'a list \<Rightarrow> 'a list" where
  "insort_cmp cmp x [] = [x]"
| "insort_cmp cmp x (y # ys) =
     (if cmp x y \<le> 0 then x # y # ys else y # insort_cmp cmp x ys)"

definition sort_cmp :: "('a \<Rightarrow> 'a \<Rightarrow> int) \<Rightarrow> 'a list \<Rightarrow> 'a list" where
  "sort_cmp cmp xs = foldr (insort_cmp cmp) xs []"

text \<open>
  An array index is the canonical decimal numeral of an integer from 0 to \<open>2^32 - 2\<close>:
  digits only, no leading zero.
\<close>

definition isDigitChar :: "char \<Rightarrow> bool" where
  "isDigitChar c = (c \<in> set ''0123456789'')"

definition digitValue :: "char \<Rightarrow> nat" where
  "digitValue c = length (takeWhile (\<lambda>d. d \<noteq> c) ''0123456789'')"

definition decimalValue :: "string \<Rightarrow> nat" where
  "decimalValue s = foldl (\<lambda>n c. 10 * n + digitValue c) 0 s"

definition isArrayIndex :: "string \<Rightarrow> bool" where
  "isArrayIndex s =
     (s \<noteq> [] \<and> list_all isDigitChar s \<and> (s = ''0'' \<or> take 1 s \<noteq> ''0'') \<and>
      decimalValue s < 4294967295)"

definition byIndex :: "string \<Rightarrow> string \<Rightarrow> int" where
  "byIndex a b = int (decimalValue a) - int (decimalValue b)"


text \<open>\<open>Object.entries(o)\<close>, and the order of \<open>for (const k in o)\<close>.\<close>

definition objectEntries :: "'v obj \<Rightarrow> 'v obj" where
  "objectEntries obj =
     sort_cmp (\<lambda>a b. byIndex (fst a) (fst b)) (filter (\<lambda>e. isArrayIndex (fst e)) obj) @
     filter (\<lambda>e. \<not> isArrayIndex (fst e)) obj"

section \<open>services/geminiService: analyzeChanges\<close>

text \<open>
  The test of the first loop of \<open>analyzeChanges\<close>,
  \<open>newFiles[path] && newFiles[path] !== oldFiles[path]\<close>, for a key \<open>path\<close> of \<open>oldFiles\<close>.
  A missing property reads \<open>undefined\<close>, which is falsy, and so is the empty string.
\<close>

definition isChanged :: "string obj \<Rightarrow> string obj \<Rightarrow> string \<Rightarrow> bool" where
  "isChanged oldFiles newFiles path =
     (case map_of newFiles path of
        None \<Rightarrow> False
      | Some n \<Rightarrow> n \<noteq> [] \<and> Some n \<noteq> map_of oldFiles path)"

text \<open>The paths the loop \<open>for (const path in oldFiles)\<close> writes into the BEFORE section.\<close>

definition changedPaths :: "string obj \<Rightarrow> string obj \<Rightarrow> string list" where
  "changedPaths oldFiles newFiles =
     filter (isChanged oldFiles newFiles) (map fst (objectEntries oldFiles))"

definition beforeEntry :: "string obj \<Rightarrow> string \<Rightarrow> string" where
  "beforeEntry oldFiles path =
     [CHR 0x0A, CHR 0x0A] @ ''---'' @ [CHR 0x0A] @ ''File: '' @ path @ '' (BEFORE)'' @
     [CHR 0x0A] @ ''---'' @ [CHR 0x0A] @
     (case map_of oldFiles path of None \<Rightarrow> [] | Some c \<Rightarrow> c)"

definition oldFilesContent :: "string obj \<Rightarrow> string obj \<Rightarrow> string" where
  "oldFilesContent oldFiles newFiles =
     (let s = concat (map (beforeEntry oldFiles) (changedPaths oldFiles newFiles))
      in if s = [] then ''No files were changed. This was likely an addition of new files.''
         else s)"

section \<open>App: ensureStructuredReview\<close>

text \<open>
  The argument has type \<open>any\<close>: a value as \<open>JSON.parse\<close> returns it, or \<open>undefined\<close> for
  a missing property. Only the zero-ness of a number is ever inspected, so numbers are
  integers here.
\<close>

datatype jsval =
    JUndefined
  | JNull
  | JBool bool
  | JNum int
  | JStr string
  | JArr "jsval list"
  | JObj "(string \<times> jsval) list"

fun truthy :: "jsval \<Rightarrow> bool" where
  "truthy JUndefined = False"
| "truthy JNull = False"
| "truthy (JBool b) = b"
| "truthy (JNum n) = (n \<noteq> 0)"
| "truthy (JStr s) = (s \<noteq> [])"
| "truthy (JArr _) = True"
| "truthy (JObj _) = True"

text \<open>
  Reading a property of a value that is neither \<open>null\<close> nor \<open>undefined\<close>. The names read
  here are no members of a primitive's or an array's prototype, so only an object has
  them.
\<close>

fun getProp :: "jsval \<Rightarrow> string \<Rightarrow> jsval" where
  "getProp (JObj kvs) k = (case map_of kvs k of None \<Rightarrow> JUndefined | Some v \<Rightarrow> v)"
| "getProp _ k = JUndefined"

fun isArray :: "jsval \<Rightarrow> bool" where
  "isArray (JArr _) = True"
| "isArray _ = False"

definition emptyReviewFields :: "jsval obj" where
  "emptyReviewFields =
     [(''crashBugs'', JArr []), (''uiUxImprovements'', JArr []), (''otherSuggestions'', JArr [])]"

definition emptyReview :: jsval where
  "emptyReview = JObj emptyReviewFields"

definition legacyReview :: "string \<Rightarrow> jsval" where
  "legacyReview s =
     JObj (obj_set emptyReviewFields ''otherSuggestions''
       (JArr [JObj [(''id'', JStr ''legacy-review''), (''description'', JStr s)]]))"

text \<open>The shape test of line 43: the three category fields are arrays.\<close>

definition hasCategories :: "jsval \<Rightarrow> bool" where
  "hasCategories review =
     (isArray (getProp review ''crashBugs'') \<and> isArray (getProp review ''uiUxImprovements'')
      \<and> isArray (getProp review ''otherSuggestions''))"

definition ensureStructuredReview :: "jsval \<Rightarrow> jsval" where
  "ensureStructuredReview review =
     (if \<not> truthy review then emptyReview
      else (case review of
              JStr s \<Rightarrow> legacyReview s
            | _ \<Rightarrow> if hasCategories review then review else emptyReview))"

section \<open>App: buildFileTree, and the ordering of FileExplorer\<close>

record FilePlan =
  path :: string
  description :: string












definition addKey :: "string list \<Rightarrow> string \<Rightarrow> string list" where
  "addKey ks k = (if k \<in> set ks then ks else ks @ [k])"










definition fp :: "string \<Rightarrow> string \<Rightarrow> FilePlan" where
  "fp p d = \<lparr>path = p, description = d\<rparr>"


section \<open>types: the project\<close>

record AppPlan =
  appName :: string
  appDescription :: string
  packageName :: string
  permissions :: "string list"
  dependencies :: "string list"
  fileStructure :: "FilePlan list"

record Suggestion =
  sug_id :: string
  sug_description :: string

record StructuredReview =
  crashBugs :: "Suggestion list"
  uiUxImprovements :: "Suggestion list"
  otherSuggestions :: "Suggestion list"

record Project =
  proj_id :: string
  prompt :: string
  plan :: AppPlan
  files :: "string obj"
  review :: StructuredReview
  createdAt :: string

definition emptyStructuredReview :: StructuredReview where
  "emptyStructuredReview = \<lparr>crashBugs = [], uiUxImprovements = [], otherSuggestions = []\<rparr>"

text \<open>
  The React state that the handlers read and write. The flags and labels that only
  drive the display (\<open>view\<close>, \<open>status\<close>, \<open>isLoading\<close>, \<open>isModifying\<close>,
  \<open>modificationStatus\<close>, \<open>selectedFile\<close>, \<open>infoMessage\<close>) are left out.
\<close>

record AppState =
  projects :: "Project list"
  activeProject :: "Project option"
  error :: "string option"
  changeSummary :: "string option"
  selectedSuggestions :: "string set"
  customModificationPrompt :: string

text \<open>
  A stream of the model client, as the \<open>for await\<close> loop sees it: the texts of the
  chunks it delivers, then either its end or an exception with a message. A call that
  rejects before the first chunk is the stream with no chunk and an exception.
\<close>

datatype fragment_stream = Fragments "string list" "string option"

text \<open>
  \<open>saveProjects\<close>: \<open>localStorage.setItem\<close> may throw (quota); the exception is caught and
  logged, and then \<open>setProjects\<close> is skipped. Whether the store accepts a list is a
  parameter.
\<close>

definition saveProjects :: "(Project list \<Rightarrow> bool) \<Rightarrow> Project list \<Rightarrow> AppState \<Rightarrow> AppState" where
  "saveProjects storeAccepts updatedProjects st =
     (if storeAccepts updatedProjects then st\<lparr>projects := updatedProjects\<rparr> else st)"

section \<open>App: handleModification\<close>

definition startDelimiter :: string where
  "startDelimiter = ''--FILE_START:''"

definition endDelimiter :: string where
  "endDelimiter = ''--''"

definition fileEndDelimiter :: string where
  "fileEndDelimiter = ''--FILE_END--''"

text \<open>
  One pass through the body of the \<open>while (true)\<close> loop, as a function of the buffer:
  which of its four exits is taken, and with what.
\<close>

datatype scan_step =
    NoStart
  | NoPathEnd
  | FileDone string string string
  | FilePartial string string

definition scanStep :: "string \<Rightarrow> scan_step" where
  "scanStep buffer =
     (case indexOf buffer startDelimiter 0 of
        None \<Rightarrow> NoStart
      | Some startIndex \<Rightarrow>
          (case indexOf buffer endDelimiter (startIndex + length startDelimiter) of
             None \<Rightarrow> NoPathEnd
           | Some endIndex \<Rightarrow>
               (let filePath = trim (substring buffer (startIndex + length startDelimiter) endIndex);
                    contentStartIndex = endIndex + length endDelimiter
                in (case indexOf buffer fileEndDelimiter contentStartIndex of
                      Some fileEndIndex \<Rightarrow>
                        FileDone filePath (trim (substring buffer contentStartIndex fileEndIndex))
                          (substringFrom buffer (fileEndIndex + length fileEndDelimiter))
                    | None \<Rightarrow> FilePartial filePath (substringFrom buffer contentStartIndex)))))"

text \<open>
  The variables of the \<open>try\<close> block, with the active project that the functional
  updates \<open>setActiveProject(proj => ...)\<close> rewrite. \<open>completions\<close> is not a variable of
  the source: it records, in order, every assignment \<open>updatedFiles[path] = code\<close>.
\<close>

record ModState =
  buffer :: string
  updatedFiles :: "string obj"
  completions :: "(string \<times> string) list"
  active :: "Project option"

definition setFile :: "string \<Rightarrow> string \<Rightarrow> Project option \<Rightarrow> Project option" where
  "setFile name code proj = map_option (\<lambda>p. p\<lparr>files := obj_set (files p) name code\<rparr>) proj"

function whileLoop :: "ModState \<Rightarrow> ModState" where
  "whileLoop st =
     (case scanStep (buffer st) of
        NoStart \<Rightarrow> st
      | NoPathEnd \<Rightarrow> st
      | FileDone filePath code rest \<Rightarrow>
          whileLoop (st\<lparr>updatedFiles := obj_set (updatedFiles st) filePath code,
                         completions := completions st @ [(filePath, code)],
                         active := setFile filePath code (active st),
                         buffer := rest\<rparr>)
      | FilePartial filePath partialCode \<Rightarrow>
          st\<lparr>active := setFile filePath partialCode (active st)\<rparr>)"
  by pat_completeness auto
termination
proof (relation "measure (\<lambda>st. length (buffer st))")
  show "wf (measure (\<lambda>st. length (buffer st)))" by simp
next
  fix st :: ModState and name code rest
  assume fd: "scanStep (buffer st) = FileDone name code rest"
  have bound: "i + length pat \<le> length s" if "find_at pat s = Some i" for pat s i
    using that
  proof (induction s arbitrary: i)
    case Nil
    then show ?case by (simp split: if_splits)
  next
    case (Cons c cs)
    then show ?case by (auto dest: prefix_length_le split: if_splits)
  qed
  have "\<exists>fileEndIndex pos. indexOf (buffer st) fileEndDelimiter pos = Some fileEndIndex \<and>
          rest = substringFrom (buffer st) (fileEndIndex + length fileEndDelimiter)"
    using fd by (auto simp: scanStep_def Let_def split: option.splits)
  then obtain fileEndIndex pos where
    idx: "indexOf (buffer st) fileEndDelimiter pos = Some fileEndIndex" and
    rest: "rest = substringFrom (buffer st) (fileEndIndex + length fileEndDelimiter)"
    by blast
  from idx obtain i where i: "find_at fileEndDelimiter (drop pos (buffer st)) = Some i"
    and fi: "fileEndIndex = i + min pos (length (buffer st))"
    by (auto simp: indexOf_def)
  have "i + length fileEndDelimiter \<le> length (buffer st) - pos"
    using bound[OF i] by simp
  then have "length rest < length (buffer st)"
    using rest fi by (auto simp: substringFrom_def fileEndDelimiter_def)
  then show "(st\<lparr>updatedFiles := obj_set (updatedFiles st) name code,
                 completions := completions st @ [(name, code)],
                 active := setFile name code (active st), buffer := rest\<rparr>, st)
        \<in> measure (\<lambda>st. length (buffer st))"
    by simp
qed

text \<open>The body of \<open>for await (const chunk of stream)\<close>, and the loop over the chunks.\<close>

definition feed :: "ModState \<Rightarrow> string \<Rightarrow> ModState" where
  "feed st chunk = whileLoop (st\<lparr>buffer := buffer st @ chunk\<rparr>)"

definition feedAll :: "ModState \<Rightarrow> string list \<Rightarrow> ModState" where
  "feedAll st chunks = foldl feed st chunks"

text \<open>
  The state of the \<open>try\<close> block before the first chunk, and after the last chunk of a
  stream for the project \<open>p\<close>, whose review line 287 has just emptied.
\<close>

definition startState :: "Project option \<Rightarrow> ModState" where
  "startState proj = \<lparr>buffer = [], updatedFiles = [], completions = [], active = proj\<rparr>"

definition streamed :: "Project \<Rightarrow> string list \<Rightarrow> ModState" where
  "streamed p chunks =
     feedAll (startState (Some (p\<lparr>review := emptyStructuredReview\<rparr>))) chunks"

text \<open>What the loop has parsed: everything of its state but the active project.\<close>

definition parsed :: "ModState \<Rightarrow> string \<times> string obj \<times> (string \<times> string) list" where
  "parsed st = (buffer st, updatedFiles st, completions st)"

text \<open>
  \<open>updatedFiles\<close> holds what the completions recorded, the last one of a path, under
  pairwise distinct keys.
\<close>

definition recorded :: "ModState \<Rightarrow> bool" where
  "recorded st =
     (distinct (map fst (updatedFiles st)) \<and>
      map_of (updatedFiles st) = map_of (rev (completions st)))"

text \<open>\<open>xs.join(sep)\<close>\<close>

fun join :: "string \<Rightarrow> string list \<Rightarrow> string" where
  "join sep [] = []"
| "join sep [x] = x"
| "join sep (x # xs) = x @ sep @ join sep xs"

definition allSuggestions :: "Project \<Rightarrow> Suggestion list" where
  "allSuggestions p =
     crashBugs (review p) @ uiUxImprovements (review p) @ otherSuggestions (review p)"

definition modificationPrompt :: "AppState \<Rightarrow> Project \<Rightarrow> string" where
  "modificationPrompt st p =
     (let selectedDescs =
            map sug_description (filter (\<lambda>s. sug_id s \<in> selectedSuggestions st) (allSuggestions p));
          part1 = (if selectedDescs \<noteq> []
                   then [''Implement the following suggestions:'' @ [CHR 0x0A] @ ''- '' @
                         join ([CHR 0x0A] @ ''- '') selectedDescs]
                   else []);
          part2 = (if trim (customModificationPrompt st) \<noteq> []
                   then [''Also, apply this custom request:'' @ [CHR 0x0A] @
                         trim (customModificationPrompt st)]
                   else [])
      in join [CHR 0x0A, CHR 0x0A] (part1 @ part2))"

definition noChangesMessage :: string where
  "noChangesMessage = ''The model did not return any file changes. Try rephrasing your request.''"

text \<open>The \<open>catch\<close> block, and the early return of line 329, on the state reached so far.\<close>

definition restoreReview :: "StructuredReview \<Rightarrow> Project option \<Rightarrow> Project option" where
  "restoreReview originalReview proj = map_option (\<lambda>p. p\<lparr>review := originalReview\<rparr>) proj"

definition modificationFailed ::
    "string \<Rightarrow> StructuredReview \<Rightarrow> Project option \<Rightarrow> AppState \<Rightarrow> AppState" where
  "modificationFailed message originalReview current st =
     st\<lparr>error := Some (''Failed to modify code: '' @ message),
        activeProject := restoreReview originalReview current\<rparr>"

text \<open>
  \<open>handleModification\<close>. The model client is two parameters: \<open>modifyCodeStream\<close> gives
  the stream for a prompt and a project, \<open>analyzeChanges\<close> gives the review and the
  summary, or throws (\<open>Inl\<close> the message).
\<close>

definition handleModification ::
    "(string \<Rightarrow> Project \<Rightarrow> fragment_stream) \<Rightarrow>
     (string obj \<Rightarrow> string obj \<Rightarrow> string + StructuredReview \<times> string) \<Rightarrow>
     (Project list \<Rightarrow> bool) \<Rightarrow> AppState \<Rightarrow> AppState" where
  "handleModification modifyCodeStream analyzeChanges storeAccepts st =
     (case activeProject st of
        None \<Rightarrow> st
      | Some p \<Rightarrow>
          if selectedSuggestions st = {} \<and> trim (customModificationPrompt st) = [] then st
          else if modificationPrompt st p = [] then st
          else
            (let oldFiles = files p;
                 originalReview = review p;
                 st1 = st\<lparr>error := None, changeSummary := None,
                          activeProject := Some (p\<lparr>review := emptyStructuredReview\<rparr>)\<rparr>
             in (case modifyCodeStream (modificationPrompt st p) p of
                   Fragments chunks (Some message) \<Rightarrow>
                     modificationFailed message originalReview (active (streamed p chunks)) st1
                 | Fragments chunks None \<Rightarrow>
                     (let fin = streamed p chunks in
                      if updatedFiles fin = [] \<and> trim (buffer fin) = []
                      then st1\<lparr>error := Some noChangesMessage,
                               activeProject := restoreReview originalReview (active fin)\<rparr>
                      else
                        (let newFiles = obj_spread oldFiles (updatedFiles fin) in
                         case analyzeChanges oldFiles newFiles of
                           Inl message \<Rightarrow>
                             modificationFailed message originalReview (active fin) st1
                         | Inr (newReview, summary) \<Rightarrow>
                             (let updatedProject = p\<lparr>files := newFiles, review := newReview\<rparr>;
                                  updatedProjects =
                                    map (\<lambda>q. if proj_id q = proj_id updatedProject
                                              then updatedProject else q) (projects st)
                              in (saveProjects storeAccepts updatedProjects st1)
                                   \<lparr>activeProject := Some updatedProject,
                                    changeSummary := Some summary,
                                    selectedSuggestions := {},
                                    customModificationPrompt := []\<rparr>))))))"

text \<open>
  The handler runs its \<open>try\<close> block: a project is active, a suggestion is selected or a
  custom request is given, and the prompt built from them is not empty.
\<close>

definition attempts :: "AppState \<Rightarrow> Project \<Rightarrow> bool" where
  "attempts st p =
     (activeProject st = Some p \<and>
      \<not> (selectedSuggestions st = {} \<and> trim (customModificationPrompt st) = []) \<and>
      modificationPrompt st p \<noteq> [])"

text \<open>A committed project and a state in which it is active, for the concrete runs below.\<close>

definition demoPlan :: AppPlan where
  "demoPlan = \<lparr>appName = ''Demo'', appDescription = ''A demo'', packageName = ''com.demo'',
     permissions = [], dependencies = [],
     fileStructure = [fp ''A.java'' ''main class'']\<rparr>"

definition demoReview :: StructuredReview where
  "demoReview = \<lparr>crashBugs = [], uiUxImprovements = [],
     otherSuggestions = [\<lparr>sug_id = ''use-strings'', sug_description = ''Move texts to strings.xml''\<rparr>]\<rparr>"

definition demoProject :: Project where
  "demoProject = \<lparr>proj_id = ''proj_1'', prompt = ''a demo app'', plan = demoPlan,
     files = [(''A.java'', ''v1'')], review = demoReview, createdAt = ''2025-01-01''\<rparr>"

definition demoState :: AppState where
  "demoState = \<lparr>projects = [demoProject], activeProject = Some demoProject, error = None,
     changeSummary = None, selectedSuggestions = {}, customModificationPrompt = ''make it blue''\<rparr>"

definition demoReview2 :: StructuredReview where
  "demoReview2 = \<lparr>crashBugs = [\<lparr>sug_id = ''npe'', sug_description = ''Check for null''\<rparr>],
     uiUxImprovements = [], otherSuggestions = []\<rparr>"

text \<open>A stream in two chunks: a closed block for \<open>A.java\<close>, then \<open>B.java\<close> left open.\<close>

definition demoChunks :: "string list" where
  "demoChunks =
     [''--FILE_START: A.java--\<newline>v2\<newline>--FILE_END--\<newline>--FILE_START: B.java--\<newline>par'',
      ''tial'']"

section \<open>App: handleGenerateApp\<close>

definition errorMsg :: string where
  "errorMsg = ''// Error generating code for this file. Please try modifying it.''"

text \<open>
  The inner loop \<open>for await (const chunk of stream)\<close> of one file: \<open>code\<close> grows by each
  chunk and is shown in the active project at once.
\<close>

fun streamChunks :: "string \<Rightarrow> string \<Rightarrow> string list \<Rightarrow> Project option \<Rightarrow> string \<times> Project option" where
  "streamChunks name code [] proj = (code, proj)"
| "streamChunks name code (chunk # chunks) proj =
     streamChunks name (code @ chunk) chunks (setFile name (code @ chunk) proj)"

text \<open>The local \<open>files\<close> of the handler, and the active project beside it.\<close>

record GenState =
  genFiles :: "string obj"
  genActive :: "Project option"

text \<open>
  One pass of the loop over \<open>appPlan.fileStructure\<close>: the \<open>try\<close> stores the whole code,
  the \<open>catch\<close> stores \<open>errorMsg\<close>, whatever had arrived.
\<close>

definition generateOne ::
    "(AppPlan \<Rightarrow> FilePlan \<Rightarrow> fragment_stream) \<Rightarrow> AppPlan \<Rightarrow> FilePlan \<Rightarrow> GenState \<Rightarrow> GenState" where
  "generateOne generateFileCodeStream appPlan file g =
     (case generateFileCodeStream appPlan file of
        Fragments chunks ending \<Rightarrow>
          (case streamChunks (path file) [] chunks (genActive g) of
             (code, proj) \<Rightarrow>
               (case ending of
                  None \<Rightarrow> \<lparr>genFiles = obj_set (genFiles g) (path file) code, genActive = proj\<rparr>
                | Some message \<Rightarrow>
                    \<lparr>genFiles = obj_set (genFiles g) (path file) errorMsg,
                     genActive = setFile (path file) errorMsg proj\<rparr>)))"

definition generateAll ::
    "(AppPlan \<Rightarrow> FilePlan \<Rightarrow> fragment_stream) \<Rightarrow> AppPlan \<Rightarrow> Project \<Rightarrow> GenState" where
  "generateAll generateFileCodeStream appPlan initialProject =
     fold (generateOne generateFileCodeStream appPlan) (fileStructure appPlan)
       \<lparr>genFiles = [], genActive = Some initialProject\<rparr>"

text \<open>What the walk stores for a file, by the way its stream ends.\<close>

fun fileContent :: "fragment_stream \<Rightarrow> string" where
  "fileContent (Fragments chunks None) = concat chunks"
| "fileContent (Fragments chunks (Some message)) = errorMsg"

definition generationError :: "string \<Rightarrow> string" where
  "generationError message =
     ''An error occurred: '' @ message @ ''. Please check the console for details.''"

text \<open>
  \<open>handleGenerateApp\<close>. The model client is three parameters (\<open>Inl\<close> the message of what
  it throws); \<open>idea\<close> is the state \<open>prompt\<close>; \<open>newId\<close> and \<open>now\<close> are
  \<open>proj_${Date.now()}\<close> and \<open>new Date().toISOString()\<close>.
\<close>

definition handleGenerateApp ::
    "(string \<Rightarrow> string + AppPlan) \<Rightarrow> (AppPlan \<Rightarrow> FilePlan \<Rightarrow> fragment_stream) \<Rightarrow>
     (string obj \<Rightarrow> string + StructuredReview) \<Rightarrow> (Project list \<Rightarrow> bool) \<Rightarrow>
     string \<Rightarrow> string \<Rightarrow> string \<Rightarrow> AppState \<Rightarrow> AppState" where
  "handleGenerateApp generateAppPlan generateFileCodeStream reviewCode storeAccepts
       newId now idea st =
     (if trim idea = [] then st\<lparr>error := Some ''Please enter an app idea.''\<rparr>
      else
        (let st1 = st\<lparr>error := None, changeSummary := None\<rparr> in
         case generateAppPlan idea of
           Inl message \<Rightarrow> st1\<lparr>error := Some (generationError message)\<rparr>
         | Inr appPlan \<Rightarrow>
             (let initialProject =
                    \<lparr>proj_id = newId, prompt = idea, plan = appPlan, files = [],
                     review = emptyStructuredReview, createdAt = now\<rparr>;
                  g = generateAll generateFileCodeStream appPlan initialProject
              in (case reviewCode (genFiles g) of
                    Inl message \<Rightarrow>
                      st1\<lparr>activeProject := genActive g,
                          error := Some (generationError message)\<rparr>
                  | Inr newReview \<Rightarrow>
                      (let finalProject = initialProject\<lparr>files := genFiles g, review := newReview\<rparr>
                       in (saveProjects storeAccepts (projects st @ [finalProject]) st1)
                            \<lparr>activeProject := Some finalProject\<rparr>)))))"

text \<open>A plan of three files and a client whose second stream breaks off, for the run below.\<close>

definition demoPlan3 :: AppPlan where
  "demoPlan3 = demoPlan\<lparr>fileStructure :=
     [fp ''A.java'' ''main class'', fp ''B.xml'' ''layout'', fp ''C.gradle'' ''build'']\<rparr>"

definition demoGenerate :: "AppPlan \<Rightarrow> FilePlan \<Rightarrow> fragment_stream" where
  "demoGenerate appPlan file =
     (if path file = ''B.xml'' then Fragments [''<Lin''] (Some ''quota'')
      else Fragments [''code of '', path file] None)"

definition demoInitial :: Project where
  "demoInitial = \<lparr>proj_id = ''proj_2'', prompt = ''a notes app'', plan = demoPlan3, files = [],
     review = emptyStructuredReview, createdAt = ''2025-02-02''\<rparr>"

section \<open>App: handleImportProject\<close>

text \<open>
  An archive as JSZip loads it: its entries in order, each with its name, its directory
  flag and its content as a string.
\<close>

record zip_entry =
  entryName :: string
  entryDir :: bool
  entryContent :: string

text \<open>\<open>String(n)\<close> for a natural number, by its decimal digits.\<close>

definition digit :: "nat \<Rightarrow> char" where
  "digit n = ''0123456789'' ! (n mod 10)"

fun showNat :: "nat \<Rightarrow> string" where
  "showNat n = (if n < 10 then [digit n] else showNat (n div 10) @ [digit (n mod 10)])"

text \<open>
  \<open>{...v}\<close> for a value of \<open>JSON.parse\<close>: the properties of an object, the indexed
  elements of an array or characters of a string, nothing for \<open>null\<close>, a number or a
  boolean.
\<close>

fun spreadOf :: "jsval \<Rightarrow> jsval obj" where
  "spreadOf (JObj kvs) = kvs"
| "spreadOf (JArr xs) = map (\<lambda>(i, x). (showNat i, x)) (enumerate 0 xs)"
| "spreadOf (JStr s) = map (\<lambda>(i, c). (showNat i, JStr [c])) (enumerate 0 s)"
| "spreadOf _ = []"

text \<open>
  Reading a property where the value may be \<open>null\<close> or \<open>undefined\<close>: that throws a
  \<open>TypeError\<close> (\<open>Inl\<close>). Arrays and strings have their \<open>length\<close>.
\<close>

fun readProp :: "jsval \<Rightarrow> string \<Rightarrow> string + jsval" where
  "readProp JUndefined k = Inl ''Cannot read properties of undefined''"
| "readProp JNull k = Inl ''Cannot read properties of null''"
| "readProp (JArr xs) k = Inr (if k = ''length'' then JNum (int (length xs)) else JUndefined)"
| "readProp (JStr s) k = Inr (if k = ''length'' then JNum (int (length s)) else JUndefined)"
| "readProp v k = Inr (getProp v k)"

text \<open>
  \<open>v > 0\<close>. A number compares as it is, \<open>undefined\<close> is never greater, \<open>null\<close> counts
  as 0 and a boolean as 0 or 1; the conversion of a string, an array or an object to a
  number is the host's, a parameter.
\<close>

fun greaterThanZero :: "(jsval \<Rightarrow> bool) \<Rightarrow> jsval \<Rightarrow> bool" where
  "greaterThanZero coerced (JNum n) = (n > 0)"
| "greaterThanZero coerced JUndefined = False"
| "greaterThanZero coerced JNull = False"
| "greaterThanZero coerced (JBool b) = b"
| "greaterThanZero coerced v = coerced v"

definition filesValue :: "string obj \<Rightarrow> jsval" where
  "filesValue importedFiles = JObj (map (\<lambda>(k, v). (k, JStr v)) importedFiles)"

text \<open>Line 421: the names that are, or end in, \<open>project.json\<close>.\<close>

definition projectJsonPaths :: "zip_entry list \<Rightarrow> string list" where
  "projectJsonPaths archive =
     filter (\<lambda>p. suffix ''/project.json'' p \<or> p = ''project.json'') (map entryName archive)"

definition bySegments :: "string \<Rightarrow> string \<Rightarrow> int" where
  "bySegments a b = int (length (split CHR ''/'' a)) - int (length (split CHR ''/'' b))"

text \<open>
  \<open>p.includes('/') ? p.substring(0, p.lastIndexOf('/') + 1) : ''\<close>
\<close>

definition rootDirOf :: "string \<Rightarrow> string" where
  "rootDirOf p =
     (if CHR ''/'' \<in> set p then rev (dropWhile (\<lambda>c. c \<noteq> CHR ''/'') (rev p)) else [])"

text \<open>
  The two \<open>zip.forEach\<close> loops. The contents arrive through promises; the files are
  entered here in the order of the entries.
\<close>

definition rawFiles :: "zip_entry list \<Rightarrow> string obj" where
  "rawFiles archive =
     fold (\<lambda>e acc. if \<not> entryDir e \<and> \<not> prefix ''__MACOSX/'' (entryName e)
                     then obj_set acc (entryName e) (entryContent e) else acc) archive []"

definition projectFiles :: "string \<Rightarrow> string \<Rightarrow> zip_entry list \<Rightarrow> string obj" where
  "projectFiles rootDir projectJsonPath archive =
     fold (\<lambda>e acc.
             if prefix rootDir (entryName e) \<and> \<not> entryDir e \<and> entryName e \<noteq> projectJsonPath
                \<and> \<not> prefix ''__MACOSX/'' (entryName e)
             then (let projectFilePath = substringFrom (entryName e) (length rootDir)
                   in if projectFilePath \<noteq> [] then obj_set acc projectFilePath (entryContent e)
                      else acc)
             else acc) archive []"

text \<open>\<open>zip.file(name)\<close>: the entry of that name, unless it is a directory.\<close>

definition zipFile :: "zip_entry list \<Rightarrow> string \<Rightarrow> zip_entry option" where
  "zipFile archive name = find (\<lambda>e. entryName e = name \<and> \<not> entryDir e) archive"

text \<open>
  The project that \<open>handleImportProject\<close> builds and appends to the saved list, or the
  message of what it throws, for an archive that JSZip has loaded.
  \<open>analyzeImportedProject\<close> and \<open>jsonParse\<close> return the parsed answer or throw;
  \<open>nowMs\<close> is \<open>Date.now()\<close> and \<open>now\<close> is \<open>new Date().toISOString()\<close>. The texts of
  the \<open>TypeError\<close>s are shortened. The new project is the object literal read from left
  to right: the spread first, then the named properties, each replacing an earlier one
  of its name where that stands.
\<close>

definition inferredImport ::
    "(string obj \<Rightarrow> string + jsval) \<Rightarrow> nat \<Rightarrow> string \<Rightarrow> zip_entry list \<Rightarrow> string + jsval obj" where
  "inferredImport analyzeImportedProject nowMs now archive =
     (let importedFiles = rawFiles archive in
      if importedFiles = []
      then Inl ''Import failed: The zip file is empty or contains no files.''
      else (case analyzeImportedProject importedFiles of
              Inl message \<Rightarrow> Inl message
            | Inr answer \<Rightarrow>
                (case readProp answer ''plan'' of
                   Inl message \<Rightarrow> Inl message
                 | Inr planValue \<Rightarrow>
                     (case readProp answer ''review'' of
                        Inl message \<Rightarrow> Inl message
                      | Inr reviewValue \<Rightarrow>
                          Inr [(''plan'', planValue),
                               (''review'', reviewValue),
                               (''files'', filesValue importedFiles),
                               (''prompt'', JStr ''Project imported from a ZIP archive.''),
                               (''id'', JStr (''proj_'' @ showNat nowMs)),
                               (''createdAt'', JStr now)]))))"

definition newProjectOf :: "jsval \<Rightarrow> string obj \<Rightarrow> nat \<Rightarrow> string \<Rightarrow> string + jsval obj" where
  "newProjectOf metadata importedFiles nowMs now =
     (case readProp metadata ''review'' of
        Inl message \<Rightarrow> Inl message
      | Inr reviewValue \<Rightarrow>
          Inr (obj_set (obj_set (obj_set (obj_set (spreadOf metadata)
                 ''review'' (ensureStructuredReview reviewValue))
                 ''files'' (filesValue importedFiles))
                 ''id'' (JStr (''proj_'' @ showNat nowMs)))
                 ''createdAt'' (JStr now)))"

text \<open>Line 491: \<open>metadata.plan.fileStructure.length > 0\<close>, read only when no file was found.\<close>

definition planHasFiles :: "(jsval \<Rightarrow> bool) \<Rightarrow> jsval \<Rightarrow> string + bool" where
  "planHasFiles coerced metadata =
     (case readProp metadata ''plan'' of
        Inl message \<Rightarrow> Inl message
      | Inr planValue \<Rightarrow>
          (case readProp planValue ''fileStructure'' of
             Inl message \<Rightarrow> Inl message
           | Inr structure \<Rightarrow>
               (case readProp structure ''length'' of
                  Inl message \<Rightarrow> Inl message
                | Inr n \<Rightarrow> Inr (greaterThanZero coerced n))))"

definition metadataImport ::
    "(string \<Rightarrow> string + jsval) \<Rightarrow> (jsval \<Rightarrow> bool) \<Rightarrow> nat \<Rightarrow> string \<Rightarrow> string \<Rightarrow>
     zip_entry list \<Rightarrow> string + jsval obj" where
  "metadataImport jsonParse coerced nowMs now projectJsonPath archive =
     (case zipFile archive projectJsonPath of
        None \<Rightarrow> Inl ''Import failed: could not read project.json from the zip file.''
      | Some metadataFile \<Rightarrow>
          (case jsonParse (entryContent metadataFile) of
             Inl message \<Rightarrow> Inl message
           | Inr metadata \<Rightarrow>
               (let importedFiles = projectFiles (rootDirOf projectJsonPath) projectJsonPath archive
                in if importedFiles \<noteq> [] then newProjectOf metadata importedFiles nowMs now
                   else (case planHasFiles coerced metadata of
                           Inl message \<Rightarrow> Inl message
                         | Inr True \<Rightarrow>
                             Inl (''Import failed: project.json was found, but no '' @
                                  ''source code files could be located in the archive.'')
                         | Inr False \<Rightarrow> newProjectOf metadata importedFiles nowMs now))))"

text \<open>
  The test \<open>projectJsonPaths.length === 0\<close> and the choice of \<open>projectJsonPaths[0]\<close> after
  the sort, in one case distinction: sorting keeps the list empty or not.
\<close>

definition importProject ::
    "(string \<Rightarrow> string + jsval) \<Rightarrow> (string obj \<Rightarrow> string + jsval) \<Rightarrow> (jsval \<Rightarrow> bool) \<Rightarrow>
     nat \<Rightarrow> string \<Rightarrow> zip_entry list \<Rightarrow> string + jsval obj" where
  "importProject jsonParse analyzeImportedProject coerced nowMs now archive =
     (case sort_cmp bySegments (projectJsonPaths archive) of
        [] \<Rightarrow> inferredImport analyzeImportedProject nowMs now archive
      | projectJsonPath # _ \<Rightarrow> metadataImport jsonParse coerced nowMs now projectJsonPath archive)"

text \<open>An archive with its metadata one directory down, and what parses from it.\<close>

definition demoArchive :: "zip_entry list" where
  "demoArchive =
     [\<lparr>entryName = ''app/'', entryDir = True, entryContent = []\<rparr>,
      \<lparr>entryName = ''app/old/project.json'', entryDir = False, entryContent = ''{}''\<rparr>,
      \<lparr>entryName = ''app/project.json'', entryDir = False, entryContent = ''{...}''\<rparr>,
      \<lparr>entryName = ''app/src/A.java'', entryDir = False, entryContent = ''class A {}''\<rparr>,
      \<lparr>entryName = ''__MACOSX/app/src/A.java'', entryDir = False, entryContent = ''x''\<rparr>]"

definition demoMetadata :: jsval where
  "demoMetadata =
     JObj [(''id'', JStr ''proj_1''), (''prompt'', JStr ''a notes app''),
           (''plan'', JObj [(''appName'', JStr ''Notes''), (''fileStructure'', JArr [])]),
           (''review'', JStr ''Looks fine.''), (''createdAt'', JStr ''1999-12-31'')]"

text \<open>An archive without metadata, and an answer of the model for it.\<close>

definition rawArchive :: "zip_entry list" where
  "rawArchive =
     [\<lparr>entryName = ''src/'', entryDir = True, entryContent = []\<rparr>,
      \<lparr>entryName = ''src/A.java'', entryDir = False, entryContent = ''class A {}''\<rparr>,
      \<lparr>entryName = ''README.md'', entryDir = False, entryContent = ''# Notes''\<rparr>]"

definition demoAnswer :: jsval where
  "demoAnswer = JObj [(''plan'', JObj [(''appName'', JStr ''Notes'')]), (''review'', emptyReview)]"

section \<open>Sorting and the enumeration of objects\<close>

lemma mset_insort_cmp: "mset (insort_cmp cmp x ys) = add_mset x (mset ys)"
  by (induction ys) auto

lemma mset_sort_cmp: "mset (sort_cmp cmp xs) = mset xs"
  by (induction xs) (auto simp: sort_cmp_def mset_insort_cmp)


lemma set_sort_cmp: "set (sort_cmp cmp xs) = set xs"
  using mset_sort_cmp[of cmp xs] by (metis set_mset_mset)

lemma set_objectEntries: "set (objectEntries obj) = set obj"
  by (auto simp: objectEntries_def set_sort_cmp)




section \<open>Change analysis: the BEFORE section\<close>

lemma changedPaths_iff:
  "p \<in> set (changedPaths oldFiles newFiles) \<longleftrightarrow>
     p \<in> fst ` set oldFiles \<and>
     (\<exists>n. map_of newFiles p = Some n \<and> n \<noteq> [] \<and> Some n \<noteq> map_of oldFiles p)"
  by (auto simp: changedPaths_def isChanged_def set_objectEntries split: option.splits)

text \<open>
  C3. A path whose content changed from \<open>v1\<close> to the empty string is present in both
  maps with different contents, yet the loop of \<open>analyzeChanges\<close> leaves it out of the
  BEFORE section, which then reads "No files were changed".
\<close>

theorem analyzeChanges_skips_emptied_file:
  "changedPaths [(''A.java'', ''v1'')] [(''A.java'', '''')] = [] \<and>
   map_of [(''A.java'', ''v1'')] ''A.java'' \<noteq> map_of [(''A.java'', '''')] ''A.java'' \<and>
   oldFilesContent [(''A.java'', ''v1'')] [(''A.java'', '''')] =
     ''No files were changed. This was likely an addition of new files.''"
  by (simp add: changedPaths_def isChanged_def oldFilesContent_def)

section \<open>Normalising a persisted review\<close>

lemma hasCategories_emptyReview: "hasCategories emptyReview"
  by (simp add: hasCategories_def emptyReview_def emptyReviewFields_def)

lemma hasCategories_legacyReview: "hasCategories (legacyReview s)"
  by (simp add: hasCategories_def legacyReview_def emptyReviewFields_def)

lemma hasCategories_obj: "hasCategories v \<Longrightarrow> \<exists>kvs. v = JObj kvs"
  by (cases v) (simp_all add: hasCategories_def)

text \<open>
  C8, as the code has it. The result always has the three array categories. A value
  that has them already is returned as it is; a non-empty string becomes the single
  \<open>legacy-review\<close> suggestion under \<open>otherSuggestions\<close>; everything else, the empty
  string included (it is falsy), becomes the empty review.
\<close>

theorem ensureStructuredReview_cases:
  "hasCategories (ensureStructuredReview v) \<and>
   ensureStructuredReview v =
     (if hasCategories v then v
      else (case v of
              JStr s \<Rightarrow> if s = [] then emptyReview else legacyReview s
            | _ \<Rightarrow> emptyReview))"
proof (cases v)
  case (JStr s)
  then show ?thesis
    by (simp add: ensureStructuredReview_def hasCategories_emptyReview
        hasCategories_legacyReview) (simp add: hasCategories_def)
next
  case (JObj kvs)
  then show ?thesis
    by (simp add: ensureStructuredReview_def hasCategories_emptyReview)
qed (simp_all add: ensureStructuredReview_def hasCategories_emptyReview,
     simp_all add: hasCategories_def)

text \<open>
  The claim C8 promises a single suggestion for every bare string; the empty string
  gets none.
\<close>

theorem ensureStructuredReview_empty_string:
  "ensureStructuredReview (JStr '''') \<noteq> legacyReview '''' \<and>
   getProp (ensureStructuredReview (JStr '''')) ''otherSuggestions'' = JArr []"
  by (simp add: ensureStructuredReview_def emptyReview_def emptyReviewFields_def
      legacyReview_def)

section \<open>The file tree\<close>









lemma map_of_obj_set: "map_of (obj_set level k v) = (map_of level)(k \<mapsto> v)"
  by (induction level) (auto simp: fun_eq_iff)

lemma keys_obj_set: "map fst (obj_set level k v) = addKey (map fst level) k"
  by (induction level) (force simp: addKey_def)+






















































section \<open>The stream parser of handleModification\<close>

lemma find_at_bound: "find_at pat s = Some i \<Longrightarrow> i + length pat \<le> length s"
proof (induction s arbitrary: i)
  case Nil
  then show ?case by (simp split: if_splits)
next
  case (Cons c cs)
  then show ?case by (auto dest: prefix_length_le split: if_splits)
qed

lemma find_at_append: "find_at pat s = Some i \<Longrightarrow> find_at pat (s @ t) = Some i"
proof (induction s arbitrary: i)
  case Nil
  then have "pat = []" by (simp split: if_splits)
  then show ?case using Nil by (cases t) simp_all
next
  case (Cons c cs)
  show ?case
  proof (cases "prefix pat (c # cs)")
    case True
    then have "prefix pat ((c # cs) @ t)" by (rule prefix_prefix)
    with True Cons.prems show ?thesis by simp
  next
    case False
    with Cons.prems obtain j where j: "find_at pat cs = Some j" and i: "i = Suc j"
      by auto
    have len: "length pat \<le> length (c # cs)"
      using find_at_bound[OF j] by simp
    have "\<not> prefix pat (c # cs @ t)"
    proof
      assume "prefix pat (c # cs @ t)"
      then have "prefix pat ((c # cs) @ t)" by simp
      then have "prefix pat (c # cs)"
        using len by (rule prefix_length_prefix[OF _ prefixI[OF refl]])
      with False show False by simp
    qed
    then show ?thesis using Cons.IH[OF j] i by simp
  qed
qed

lemma indexOf_bound:
  "indexOf s pat pos = Some i \<Longrightarrow> min pos (length s) \<le> i \<and> i + length pat \<le> length s"
  by (auto simp: indexOf_def dest!: find_at_bound)

lemma indexOf_append:
  assumes "indexOf b pat pos = Some i" "pat \<noteq> []"
  shows "indexOf (b @ c) pat pos = Some i"
proof -
  from assms(1) obtain j where j: "find_at pat (drop pos b) = Some j"
    and i: "i = j + min pos (length b)"
    by (auto simp: indexOf_def)
  have le: "pos \<le> length b"
  proof (rule ccontr)
    assume "\<not> pos \<le> length b"
    then have "drop pos b = []" by simp
    with j assms(2) show False by simp
  qed
  then have "drop pos (b @ c) = drop pos b @ c" by simp
  then have "find_at pat (drop pos (b @ c)) = Some j"
    using find_at_append[OF j] by simp
  then show ?thesis using i le by (simp add: indexOf_def)
qed

lemma substring_append:
  "a \<le> length b \<Longrightarrow> e \<le> length b \<Longrightarrow> substring (b @ c) a e = substring b a e"
  by (auto simp: substring_def max_def min_def)

lemma scanStep_append:
  assumes "scanStep b = FileDone p code rest"
  shows "scanStep (b @ c) = FileDone p code (rest @ c)"
proof -
  from assms obtain si where si: "indexOf b startDelimiter 0 = Some si"
    by (auto simp: scanStep_def split: option.splits)
  from assms si obtain ei where ei: "indexOf b endDelimiter (si + length startDelimiter) = Some ei"
    by (auto simp: scanStep_def split: option.splits)
  from assms si ei obtain fi where
    fi: "indexOf b fileEndDelimiter (ei + length endDelimiter) = Some fi"
    by (auto simp: scanStep_def Let_def split: option.splits)
  from assms si ei fi have
    p: "p = trim (substring b (si + length startDelimiter) ei)" and
    code: "code = trim (substring b (ei + length endDelimiter) fi)" and
    rest: "rest = substringFrom b (fi + length fileEndDelimiter)"
    by (simp_all add: scanStep_def Let_def)
  have b1: "ei + length endDelimiter \<le> length b" using indexOf_bound[OF ei] by simp
  have b2: "fi + length fileEndDelimiter \<le> length b" using indexOf_bound[OF fi] by simp
  have b3: "si + length startDelimiter \<le> length b" using indexOf_bound[OF si] by simp
  have si': "indexOf (b @ c) startDelimiter 0 = Some si"
    by (rule indexOf_append[OF si]) (simp add: startDelimiter_def)
  have ei': "indexOf (b @ c) endDelimiter (si + length startDelimiter) = Some ei"
    by (rule indexOf_append[OF ei]) (simp add: endDelimiter_def)
  have fi': "indexOf (b @ c) fileEndDelimiter (ei + length endDelimiter) = Some fi"
    by (rule indexOf_append[OF fi]) (simp add: fileEndDelimiter_def)
  have s1: "substring (b @ c) (si + length startDelimiter) ei = substring b (si + length startDelimiter) ei"
    using b1 b3 by (intro substring_append) simp_all
  have s2: "substring (b @ c) (ei + length endDelimiter) fi = substring b (ei + length endDelimiter) fi"
    using b1 b2 by (intro substring_append) simp_all
  have s3: "substringFrom (b @ c) (fi + length fileEndDelimiter) = rest @ c"
    using b2 rest by (simp add: substringFrom_def)
  show ?thesis
    unfolding scanStep_def by (simp add: si' ei' fi' s1 s2 s3 p code Let_def)
qed

declare whileLoop.simps [simp del]

lemma whileLoop_done:
  "scanStep (buffer st) = FileDone p code rest \<Longrightarrow>
     whileLoop st = whileLoop (st\<lparr>updatedFiles := obj_set (updatedFiles st) p code,
                         completions := completions st @ [(p, code)],
                         active := setFile p code (active st),
                         buffer := rest\<rparr>)"
  by (subst whileLoop.simps) simp

lemma whileLoop_not_done:
  "\<forall>p code rest. scanStep (buffer st) \<noteq> FileDone p code rest \<Longrightarrow>
     parsed (whileLoop st) = parsed st"
  by (subst whileLoop.simps) (simp add: parsed_def split: scan_step.splits)

lemma parsed_whileLoop_cong:
  "parsed st = parsed st' \<Longrightarrow> parsed (whileLoop st) = parsed (whileLoop st')"
proof (induction st arbitrary: st' rule: whileLoop.induct)
  case (1 st)
  have buf: "buffer st' = buffer st" using "1.prems" by (simp add: parsed_def)
  show ?case
  proof (cases "\<exists>p code rest. scanStep (buffer st) = FileDone p code rest")
    case True
    then obtain p code rest where fd: "scanStep (buffer st) = FileDone p code rest" by blast
    let ?n = "st\<lparr>updatedFiles := obj_set (updatedFiles st) p code,
                         completions := completions st @ [(p, code)],
                         active := setFile p code (active st),
                         buffer := rest\<rparr>"
    let ?n' = "st'\<lparr>updatedFiles := obj_set (updatedFiles st') p code,
                         completions := completions st' @ [(p, code)],
                         active := setFile p code (active st'),
                         buffer := rest\<rparr>"
    have "parsed ?n = parsed ?n'" using "1.prems" by (simp add: parsed_def)
    then have "parsed (whileLoop ?n) = parsed (whileLoop ?n')"
      by (rule "1.IH"[OF fd])
    then show ?thesis
      using whileLoop_done[OF fd] whileLoop_done[of st' p code rest] fd buf by simp
  next
    case False
    then show ?thesis
      using whileLoop_not_done[of st] whileLoop_not_done[of st'] buf "1.prems" by simp
  qed
qed

lemma whileLoop_settled:
  "scanStep (buffer (whileLoop st)) \<noteq> FileDone p code rest"
proof (induction st rule: whileLoop.induct)
  case (1 st)
  show ?case
  proof (cases "\<exists>p code rest. scanStep (buffer st) = FileDone p code rest")
    case True
    then obtain p' code' rest' where fd: "scanStep (buffer st) = FileDone p' code' rest'" by blast
    show ?thesis
      using "1.IH"[OF fd] whileLoop_done[OF fd] by simp
  next
    case False
    then have "buffer (whileLoop st) = buffer st"
      using whileLoop_not_done[of st] by (simp add: parsed_def)
    then show ?thesis using False by simp
  qed
qed

lemma whileLoop_resume:
  "parsed (whileLoop ((whileLoop st)\<lparr>buffer := buffer (whileLoop st) @ c\<rparr>)) =
   parsed (whileLoop (st\<lparr>buffer := buffer st @ c\<rparr>))"
proof (induction st rule: whileLoop.induct)
  case (1 st)
  show ?case
  proof (cases "\<exists>p code rest. scanStep (buffer st) = FileDone p code rest")
    case True
    then obtain p code rest where fd: "scanStep (buffer st) = FileDone p code rest" by blast
    let ?n = "st\<lparr>updatedFiles := obj_set (updatedFiles st) p code,
                         completions := completions st @ [(p, code)],
                         active := setFile p code (active st),
                         buffer := rest\<rparr>"
    have fd': "scanStep (buffer (st\<lparr>buffer := buffer st @ c\<rparr>)) = FileDone p code (rest @ c)"
      using scanStep_append[OF fd] by simp
    have "whileLoop (st\<lparr>buffer := buffer st @ c\<rparr>) = whileLoop (?n\<lparr>buffer := buffer ?n @ c\<rparr>)"
      using whileLoop_done[OF fd'] by simp
    moreover have "whileLoop st = whileLoop ?n" by (rule whileLoop_done[OF fd])
    ultimately show ?thesis using "1.IH"[OF fd] by simp
  next
    case False
    then have "parsed (whileLoop st) = parsed st"
      by (intro whileLoop_not_done) simp
    then have "parsed ((whileLoop st)\<lparr>buffer := buffer (whileLoop st) @ c\<rparr>) =
        parsed (st\<lparr>buffer := buffer st @ c\<rparr>)"
      by (simp add: parsed_def)
    then show ?thesis by (rule parsed_whileLoop_cong)
  qed
qed

lemma parsed_feedAll:
  assumes "\<forall>p code rest. scanStep (buffer st) \<noteq> FileDone p code rest"
  shows "parsed (feedAll st chunks) = parsed (whileLoop (st\<lparr>buffer := buffer st @ concat chunks\<rparr>))"
  using assms
proof (induction chunks arbitrary: st)
  case Nil
  then show ?case using whileLoop_not_done[of st] by (simp add: feedAll_def)
next
  case (Cons c cs)
  let ?st = "st\<lparr>buffer := buffer st @ c\<rparr>"
  have "parsed (feedAll (feed st c) cs) =
      parsed (whileLoop ((feed st c)\<lparr>buffer := buffer (feed st c) @ concat cs\<rparr>))"
    by (rule Cons.IH) (simp add: feed_def whileLoop_settled)
  also have "\<dots> = parsed (whileLoop (?st\<lparr>buffer := buffer ?st @ concat cs\<rparr>))"
    unfolding feed_def by (rule whileLoop_resume)
  finally show ?case by (simp add: feedAll_def)
qed

lemma scanStep_empty: "scanStep [] = NoStart"
  by (simp add: scanStep_def indexOf_def startDelimiter_def)

lemma scanStep_start: "\<forall>p code rest. scanStep (buffer (startState a)) \<noteq> FileDone p code rest"
  by (simp add: startState_def scanStep_empty)

lemma parsed_streamed_any:
  "parsed (feedAll (startState a) chunks) =
     parsed (whileLoop ((startState a)\<lparr>buffer := concat chunks\<rparr>))"
  using parsed_feedAll[OF scanStep_start, of a chunks] by (simp add: startState_def)

text \<open>
  C4. However the same text is cut into chunks, the loop ends with the same completions
  in the same order, the same \<open>updatedFiles\<close> and the same rest of the buffer. The text
  need not be well formed.
\<close>

theorem feedAll_chunking:
  assumes "concat chunks1 = concat chunks2"
  shows "completions (feedAll (startState a) chunks1) = completions (feedAll (startState a) chunks2) \<and>
         updatedFiles (feedAll (startState a) chunks1) = updatedFiles (feedAll (startState a) chunks2) \<and>
         buffer (feedAll (startState a) chunks1) = buffer (feedAll (startState a) chunks2)"
proof -
  have "parsed (feedAll (startState a) chunks1) = parsed (feedAll (startState a) chunks2)"
    by (simp only: parsed_streamed_any assms)
  then show ?thesis by (simp add: parsed_def)
qed

lemma newline_example:
  "completions (feedAll (startState None)
      [''--FILE_START: a.txt--\<newline>hello\<newline>--FILE_END--'']) = [(''a.txt'', ''hello'')]"
  by (simp add: startState_def feedAll_def feed_def whileLoop.simps scanStep_def indexOf_def
      startDelimiter_def endDelimiter_def fileEndDelimiter_def substring_def substringFrom_def
      trim_def is_ws_def Let_def)

theorem feedAll_chunking_witness:
  "concat [''--FILE_ST'', ''ART: a.txt--\<newline>hel'', ''lo\<newline>--FILE_END--''] =
     concat [''--FILE_START: a.txt--\<newline>hello\<newline>--FILE_END--''] \<and>
   completions (feedAll (startState None)
      [''--FILE_ST'', ''ART: a.txt--\<newline>hel'', ''lo\<newline>--FILE_END--'']) = [(''a.txt'', ''hello'')]"
proof -
  have c: "concat [''--FILE_ST'', ''ART: a.txt--\<newline>hel'', ''lo\<newline>--FILE_END--''] =
     concat [''--FILE_START: a.txt--\<newline>hello\<newline>--FILE_END--'']" by simp
  show ?thesis
    using feedAll_chunking[OF c, of None] newline_example c by simp
qed

section \<open>handleModification: failure, open files, empty results\<close>

lemma trim_empty_iff: "trim s = [] \<longleftrightarrow> (\<forall>c \<in> set s. is_ws c)"
proof
  assume "trim s = []"
  then have "dropWhile is_ws (rev (dropWhile is_ws s)) = []" by (simp add: trim_def)
  then have all: "\<forall>c \<in> set (dropWhile is_ws s). is_ws c"
    by (simp add: dropWhile_eq_Nil_conv)
  have "dropWhile is_ws s = []"
  proof (rule ccontr)
    assume ne: "dropWhile is_ws s \<noteq> []"
    then have "\<not> is_ws (hd (dropWhile is_ws s))" by (rule hd_dropWhile)
    moreover have "hd (dropWhile is_ws s) \<in> set (dropWhile is_ws s)" using ne by simp
    ultimately show False using all by blast
  qed
  then show "\<forall>c \<in> set s. is_ws c" by (simp add: dropWhile_eq_Nil_conv)
next
  assume "\<forall>c \<in> set s. is_ws c"
  then have "dropWhile is_ws s = []" by (simp add: dropWhile_eq_Nil_conv)
  then show "trim s = []" by (simp only: trim_def rev.simps dropWhile.simps)
qed

lemma find_at_set: "find_at pat s = Some i \<Longrightarrow> set pat \<subseteq> set s"
proof (induction s arbitrary: i)
  case Nil
  then show ?case by (simp split: if_splits)
next
  case (Cons c cs)
  show ?case
  proof (cases "prefix pat (c # cs)")
    case True
    then show ?thesis by (rule set_mono_prefix)
  next
    case False
    with Cons.prems obtain j where "find_at pat cs = Some j" by auto
    then have "set pat \<subseteq> set cs" by (rule Cons.IH)
    then show ?thesis by auto
  qed
qed

lemma scanStep_blank:
  assumes "trim b = []"
  shows "scanStep b = NoStart"
proof -
  have "indexOf b startDelimiter 0 = None"
  proof (rule ccontr)
    assume "indexOf b startDelimiter 0 \<noteq> None"
    then obtain i where "find_at startDelimiter b = Some i"
      by (auto simp: indexOf_def)
    then have "set startDelimiter \<subseteq> set b" by (rule find_at_set)
    then have "CHR ''-'' \<in> set b" by (auto simp: startDelimiter_def)
    then have "is_ws CHR ''-''" using assms by (simp add: trim_empty_iff)
    then show False by (simp add: is_ws_def)
  qed
  then show ?thesis by (simp add: scanStep_def)
qed

lemma obj_set_not_Nil: "obj_set xs k v \<noteq> []"
  by (cases xs) (auto split: if_splits)

lemma whileLoop_updated_mono:
  "updatedFiles st \<noteq> [] \<Longrightarrow> updatedFiles (whileLoop st) \<noteq> []"
proof (induction st rule: whileLoop.induct)
  case (1 st)
  show ?case
  proof (cases "\<exists>p code rest. scanStep (buffer st) = FileDone p code rest")
    case True
    then obtain p code rest where fd: "scanStep (buffer st) = FileDone p code rest" by blast
    show ?thesis
      using "1.IH"[OF fd] whileLoop_done[OF fd] by (simp add: obj_set_not_Nil)
  next
    case False
    then show ?thesis
      using whileLoop_not_done[of st] "1.prems" by (simp add: parsed_def)
  qed
qed

lemma whileLoop_updated_iff:
  "(updatedFiles st = []) = (completions st = []) \<Longrightarrow>
     (updatedFiles (whileLoop st) = []) = (completions (whileLoop st) = [])"
proof (induction st rule: whileLoop.induct)
  case (1 st)
  show ?case
  proof (cases "\<exists>p code rest. scanStep (buffer st) = FileDone p code rest")
    case True
    then obtain p code rest where fd: "scanStep (buffer st) = FileDone p code rest" by blast
    show ?thesis
      using "1.IH"[OF fd] whileLoop_done[OF fd] by (simp add: obj_set_not_Nil)
  next
    case False
    then show ?thesis
      using whileLoop_not_done[of st] "1.prems" by (simp add: parsed_def)
  qed
qed

lemma feedAll_updated_iff:
  "(updatedFiles st = []) = (completions st = []) \<Longrightarrow>
     (updatedFiles (feedAll st chunks) = []) = (completions (feedAll st chunks) = [])"
proof (induction chunks arbitrary: st)
  case Nil
  then show ?case by (simp add: feedAll_def)
next
  case (Cons c cs)
  have "(updatedFiles (feed st c) = []) = (completions (feed st c) = [])"
    unfolding feed_def by (rule whileLoop_updated_iff) (use Cons.prems in simp)
  then have "(updatedFiles (feedAll (feed st c) cs) = []) = (completions (feedAll (feed st c) cs) = [])"
    by (rule Cons.IH)
  then show ?case by (simp add: feedAll_def)
qed

lemma streamed_updated_iff:
  "(updatedFiles (streamed p chunks) = []) = (completions (streamed p chunks) = [])"
  unfolding streamed_def by (rule feedAll_updated_iff) (simp add: startState_def)

lemma whileLoop_idle:
  assumes "updatedFiles (whileLoop s) = []" "trim (buffer (whileLoop s)) = []"
  shows "whileLoop s = s"
proof (cases "\<exists>p code rest. scanStep (buffer s) = FileDone p code rest")
  case True
  then obtain p code rest where fd: "scanStep (buffer s) = FileDone p code rest" by blast
  have "updatedFiles (whileLoop s) \<noteq> []"
    unfolding whileLoop_done[OF fd] by (rule whileLoop_updated_mono) (simp add: obj_set_not_Nil)
  with assms(1) show ?thesis by simp
next
  case False
  then have "buffer (whileLoop s) = buffer s"
    using whileLoop_not_done[of s] by (simp add: parsed_def)
  then have "scanStep (buffer s) = NoStart"
    using assms(2) by (simp add: scanStep_blank)
  then show ?thesis by (subst whileLoop.simps) simp
qed

lemma feedAll_idle:
  "updatedFiles (feedAll st chunks) = [] \<Longrightarrow> trim (buffer (feedAll st chunks)) = [] \<Longrightarrow>
     feedAll st chunks = st\<lparr>buffer := buffer st @ concat chunks\<rparr>"
proof (induction chunks arbitrary: st)
  case Nil
  then show ?case by (simp add: feedAll_def)
next
  case (Cons c cs)
  have fin: "feedAll st (c # cs) = feedAll (feed st c) cs" by (simp add: feedAll_def)
  have IH: "feedAll (feed st c) cs = (feed st c)\<lparr>buffer := buffer (feed st c) @ concat cs\<rparr>"
    by (rule Cons.IH) (use Cons.prems fin in simp_all)
  have u: "updatedFiles (feed st c) = []"
    using Cons.prems(1) fin IH by (metis ModState.select_convs(2) ModState.surjective ModState.update_convs(1))
  have "trim (buffer (feed st c) @ concat cs) = []"
    using Cons.prems(2) fin IH by (metis ModState.select_convs(1) ModState.surjective ModState.update_convs(1))
  then have "trim (buffer (feed st c)) = []"
    by (simp add: trim_empty_iff)
  then have "feed st c = st\<lparr>buffer := buffer st @ c\<rparr>"
    using u unfolding feed_def by (rule whileLoop_idle[rotated])
  then show ?case using fin IH by simp
qed

lemma streamed_idle:
  assumes "updatedFiles (streamed p chunks) = []" "trim (buffer (streamed p chunks)) = []"
  shows "active (streamed p chunks) = Some (p\<lparr>review := emptyStructuredReview\<rparr>)"
proof -
  have "streamed p chunks =
      (startState (Some (p\<lparr>review := emptyStructuredReview\<rparr>)))\<lparr>buffer :=
         buffer (startState (Some (p\<lparr>review := emptyStructuredReview\<rparr>))) @ concat chunks\<rparr>"
    using assms unfolding streamed_def by (rule feedAll_idle)
  then show ?thesis by (simp add: startState_def)
qed

text \<open>The deltas touch nothing of the active project but its files.\<close>

lemma setFile_files: "\<exists>fs. setFile name code (Some (q\<lparr>files := fs0\<rparr>)) = Some (q\<lparr>files := fs\<rparr>)"
  by (simp add: setFile_def; blast)

lemma whileLoop_active:
  "active st = Some (q\<lparr>files := fs0\<rparr>) \<Longrightarrow> \<exists>fs. active (whileLoop st) = Some (q\<lparr>files := fs\<rparr>)"
proof (induction st arbitrary: fs0 rule: whileLoop.induct)
  case (1 st)
  show ?case
  proof (cases "scanStep (buffer st)")
    case NoStart
    then show ?thesis using "1.prems" by (subst whileLoop.simps) auto
  next
    case NoPathEnd
    then show ?thesis using "1.prems" by (subst whileLoop.simps) auto
  next
    case (FileDone p code rest)
    have "active (st\<lparr>updatedFiles := obj_set (updatedFiles st) p code,
                         completions := completions st @ [(p, code)],
                         active := setFile p code (active st),
                         buffer := rest\<rparr>) = Some (q\<lparr>files := obj_set fs0 p code\<rparr>)"
      using "1.prems" by (simp add: setFile_def)
    from "1.IH"[OF FileDone this] show ?thesis
      using whileLoop_done[OF FileDone] by simp
  next
    case (FilePartial p partialCode)
    then show ?thesis using "1.prems" by (subst whileLoop.simps) (simp add: setFile_def; blast)
  qed
qed

lemma feedAll_active:
  "active st = Some (q\<lparr>files := fs0\<rparr>) \<Longrightarrow> \<exists>fs. active (feedAll st chunks) = Some (q\<lparr>files := fs\<rparr>)"
proof (induction chunks arbitrary: st fs0)
  case Nil
  then show ?case by (auto simp: feedAll_def)
next
  case (Cons c cs)
  have "\<exists>fs. active (feed st c) = Some (q\<lparr>files := fs\<rparr>)"
    unfolding feed_def by (rule whileLoop_active[where q = q and ?fs0.0 = fs0]) (use Cons.prems in simp)
  then obtain fs1 where "active (feed st c) = Some (q\<lparr>files := fs1\<rparr>)" by blast
  from Cons.IH[OF this] show ?case by (simp add: feedAll_def)
qed

lemma streamed_active:
  "\<exists>fs. active (streamed p chunks) = Some (p\<lparr>review := emptyStructuredReview, files := fs\<rparr>)"
proof -
  let ?q = "p\<lparr>review := emptyStructuredReview\<rparr>"
  have "active (startState (Some ?q)) = Some (?q\<lparr>files := files p\<rparr>)"
    by (simp add: startState_def)
  from feedAll_active[OF this] show ?thesis by (simp add: streamed_def)
qed

lemma handleModification_attempt:
  assumes "attempts st p"
  shows "handleModification modifyCodeStream analyzeChanges storeAccepts st =
     (let st1 = st\<lparr>error := None, changeSummary := None,
                          activeProject := Some (p\<lparr>review := emptyStructuredReview\<rparr>)\<rparr>
      in (case modifyCodeStream (modificationPrompt st p) p of
                   Fragments chunks (Some message) \<Rightarrow>
                     modificationFailed message (review p) (active (streamed p chunks)) st1
                 | Fragments chunks None \<Rightarrow>
                     (let fin = streamed p chunks in
                      if updatedFiles fin = [] \<and> trim (buffer fin) = []
                      then st1\<lparr>error := Some noChangesMessage,
                               activeProject := restoreReview (review p) (active fin)\<rparr>
                      else
                        (let newFiles = obj_spread (files p) (updatedFiles fin) in
                         case analyzeChanges (files p) newFiles of
                           Inl message \<Rightarrow>
                             modificationFailed message (review p) (active fin) st1
                         | Inr (newReview, summary) \<Rightarrow>
                             (let updatedProject = p\<lparr>files := newFiles, review := newReview\<rparr>;
                                  updatedProjects =
                                    map (\<lambda>q. if proj_id q = proj_id updatedProject
                                              then updatedProject else q) (projects st)
                              in (saveProjects storeAccepts updatedProjects st1)
                                   \<lparr>activeProject := Some updatedProject,
                                    changeSummary := Some summary,
                                    selectedSuggestions := {},
                                    customModificationPrompt := []\<rparr>)))))"
proof -
  have a: "activeProject st = Some p"
    and g: "(selectedSuggestions st = {} \<and> trim (customModificationPrompt st) = []) = False"
    and m: "(modificationPrompt st p = []) = False"
    using assms by (simp_all add: attempts_def)
  show ?thesis
    unfolding handleModification_def by (simp only: a g m option.case if_False Let_def)
qed


lemma demo_attempts: "attempts demoState demoProject"
  by (simp add: attempts_def demoState_def modificationPrompt_def trim_def is_ws_def Let_def)


lemmas parser_eval =
  streamed_def startState_def feedAll_def feed_def whileLoop.simps scanStep_def indexOf_def
  startDelimiter_def endDelimiter_def fileEndDelimiter_def substring_def substringFrom_def
  trim_def is_ws_def Let_def setFile_def





text \<open>
  C5, as the code has it. When the stream ends with no completed file, the test of line
  329 decides on the rest of the buffer. A blank rest reports "no file changes": the
  review is put back, nothing is analysed and nothing is saved. Any other rest
  (commentary, or an open file) goes on to the change analysis of the old files
  against themselves, and its review is committed and saved.
\<close>

theorem handleModification_no_files:
  assumes "attempts st p"
    and "modifyCodeStream (modificationPrompt st p) p = Fragments chunks None"
    and "completions (streamed p chunks) = []"
  shows "handleModification modifyCodeStream analyzeChanges storeAccepts st =
     (if trim (buffer (streamed p chunks)) = []
      then st\<lparr>error := Some noChangesMessage, changeSummary := None, activeProject := Some p\<rparr>
      else (case analyzeChanges (files p) (files p) of
              Inl message \<Rightarrow>
                modificationFailed message (review p) (active (streamed p chunks))
                  (st\<lparr>error := None, changeSummary := None,
                      activeProject := Some (p\<lparr>review := emptyStructuredReview\<rparr>)\<rparr>)
            | Inr (newReview, summary) \<Rightarrow>
                (saveProjects storeAccepts
                   (map (\<lambda>q. if proj_id q = proj_id p then p\<lparr>review := newReview\<rparr> else q)
                      (projects st))
                   (st\<lparr>error := None, changeSummary := None,
                       activeProject := Some (p\<lparr>review := emptyStructuredReview\<rparr>)\<rparr>))
                \<lparr>activeProject := Some (p\<lparr>review := newReview\<rparr>),
                 changeSummary := Some summary,
                 selectedSuggestions := {},
                 customModificationPrompt := []\<rparr>))"
proof -
  have u: "updatedFiles (streamed p chunks) = []"
    using assms(3) by (simp add: streamed_updated_iff)
  show ?thesis
  proof (cases "trim (buffer (streamed p chunks)) = []")
    case True
    have idle: "active (streamed p chunks) = Some (p\<lparr>review := emptyStructuredReview\<rparr>)"
      by (rule streamed_idle[OF u True])
    show ?thesis
      unfolding handleModification_attempt[OF assms(1)]
      by (simp add: assms(2) Let_def u True idle restoreReview_def)
  next
    case False
    have same: "p\<lparr>files := files p, review := r\<rparr> = p\<lparr>review := r\<rparr>" for r
      by simp
    show ?thesis
      unfolding handleModification_attempt[OF assms(1)]
      by (simp add: assms(2) Let_def u False obj_spread_def same split: sum.splits prod.splits)
  qed
qed

lemma demo_streamed_sorry:
  "streamed demoProject [''Sorry, nothing to change.''] =
     \<lparr>buffer = ''Sorry, nothing to change.'', updatedFiles = [], completions = [],
      active = Some (demoProject\<lparr>review := emptyStructuredReview\<rparr>)\<rparr>"
  by (simp add: parser_eval)

lemma demo_streamed_newline:
  "streamed demoProject [''\<newline>''] =
     \<lparr>buffer = ''\<newline>'', updatedFiles = [], completions = [],
      active = Some (demoProject\<lparr>review := emptyStructuredReview\<rparr>)\<rparr>"
  by (simp add: parser_eval)

theorem handleModification_no_files_witness:
  "attempts demoState demoProject \<and>
   completions (streamed demoProject [''\<newline>'']) = [] \<and>
   handleModification (\<lambda>_ _. Fragments [''\<newline>''] None)
       (\<lambda>_ _. Inr (demoReview2, ''No changes'')) (\<lambda>_. True) demoState =
     demoState\<lparr>error := Some noChangesMessage, changeSummary := None,
               activeProject := Some demoProject\<rparr> \<and>
   completions (streamed demoProject [''Sorry, nothing to change.'']) = [] \<and>
   handleModification (\<lambda>_ _. Fragments [''Sorry, nothing to change.''] None)
       (\<lambda>_ _. Inr (demoReview2, ''No changes'')) (\<lambda>_. True) demoState =
     demoState\<lparr>projects := [demoProject\<lparr>review := demoReview2\<rparr>],
               activeProject := Some (demoProject\<lparr>review := demoReview2\<rparr>),
               changeSummary := Some ''No changes'', customModificationPrompt := []\<rparr>"
proof -
  have c1: "completions (streamed demoProject [''\<newline>'']) = []"
    by (simp add: demo_streamed_newline)
  have c2: "completions (streamed demoProject [''Sorry, nothing to change.'']) = []"
    by (simp add: demo_streamed_sorry)
  have s1: "(\<lambda>_ _. Fragments [''\<newline>''] None) (modificationPrompt demoState demoProject) demoProject =
      Fragments [''\<newline>''] None" by simp
  have s2: "(\<lambda>_ _. Fragments [''Sorry, nothing to change.''] None)
      (modificationPrompt demoState demoProject) demoProject =
      Fragments [''Sorry, nothing to change.''] None" by simp
  have a: "handleModification (\<lambda>_ _. Fragments [''\<newline>''] None)
       (\<lambda>_ _. Inr (demoReview2, ''No changes'')) (\<lambda>_. True) demoState =
     demoState\<lparr>error := Some noChangesMessage, changeSummary := None,
               activeProject := Some demoProject\<rparr>"
    unfolding handleModification_no_files[OF demo_attempts s1 c1]
    by (simp add: demo_streamed_newline trim_def is_ws_def)
  have b: "handleModification (\<lambda>_ _. Fragments [''Sorry, nothing to change.''] None)
       (\<lambda>_ _. Inr (demoReview2, ''No changes'')) (\<lambda>_. True) demoState =
     demoState\<lparr>projects := [demoProject\<lparr>review := demoReview2\<rparr>],
               activeProject := Some (demoProject\<lparr>review := demoReview2\<rparr>),
               changeSummary := Some ''No changes'', customModificationPrompt := []\<rparr>"
    unfolding handleModification_no_files[OF demo_attempts s2 c2]
    by (simp add: demo_streamed_sorry trim_def is_ws_def saveProjects_def) (simp add: demoState_def)
  show ?thesis using demo_attempts c1 c2 a b by blast
qed

text \<open>
  The claim C5 fails on commentary: a stream that holds no file but a sentence is not
  reported as "no file changes". The analysis runs, and its review replaces the old one
  in the active and in the saved project.
\<close>

theorem handleModification_commentary_commits:
  "error (handleModification (\<lambda>_ _. Fragments [''Sorry, nothing to change.''] None)
       (\<lambda>_ _. Inr (demoReview2, ''No changes'')) (\<lambda>_. True) demoState) = None \<and>
   map_option review (activeProject (handleModification
       (\<lambda>_ _. Fragments [''Sorry, nothing to change.''] None)
       (\<lambda>_ _. Inr (demoReview2, ''No changes'')) (\<lambda>_. True) demoState)) = Some demoReview2 \<and>
   map review (projects (handleModification
       (\<lambda>_ _. Fragments [''Sorry, nothing to change.''] None)
       (\<lambda>_ _. Inr (demoReview2, ''No changes'')) (\<lambda>_. True) demoState)) = [demoReview2] \<and>
   completions (streamed demoProject [''Sorry, nothing to change.'']) = [] \<and>
   demoReview2 \<noteq> demoReview"
  by (simp add: handleModification_attempt[OF demo_attempts] demo_streamed_sorry
      saveProjects_def trim_def is_ws_def obj_spread_def Let_def)
    (simp add: demoState_def demoReview_def demoReview2_def Let_def)

lemma streamed_not_done:
  assumes "\<forall>p' code rest. scanStep (concat chunks) \<noteq> FileDone p' code rest"
  shows "parsed (streamed p chunks) = (concat chunks, [], [])"
proof -
  let ?s = "(startState (Some (p\<lparr>review := emptyStructuredReview\<rparr>)))\<lparr>buffer := concat chunks\<rparr>"
  have "parsed (streamed p chunks) = parsed (whileLoop ?s)"
    unfolding streamed_def by (rule parsed_streamed_any)
  also have "\<dots> = parsed ?s"
    by (rule whileLoop_not_done) (use assms in simp)
  finally show ?thesis by (simp add: parsed_def startState_def)
qed

lemma whileLoop_partial_active:
  "scanStep (buffer (whileLoop s)) = FilePartial n pc \<Longrightarrow> \<exists>a. active (whileLoop s) = setFile n pc a"
proof (induction s rule: whileLoop.induct)
  case (1 st)
  show ?case
  proof (cases "scanStep (buffer st)")
    case NoStart
    then have "whileLoop st = st" by (subst whileLoop.simps) simp
    with NoStart "1.prems" show ?thesis by simp
  next
    case NoPathEnd
    then have "whileLoop st = st" by (subst whileLoop.simps) simp
    with NoPathEnd "1.prems" show ?thesis by simp
  next
    case (FileDone p code rest)
    show ?thesis
      using "1.IH"[OF FileDone] "1.prems" whileLoop_done[OF FileDone] by simp
  next
    case (FilePartial p partialCode)
    then have w: "whileLoop st = st\<lparr>active := setFile p partialCode (active st)\<rparr>"
      by (subst whileLoop.simps) simp
    then have "scanStep (buffer (whileLoop st)) = FilePartial p partialCode"
      using FilePartial by simp
    with "1.prems" have "p = n" "partialCode = pc" by simp_all
    with w show ?thesis by auto
  qed
qed

lemma setFile_lookup:
  "setFile n pc a = Some q \<Longrightarrow> map_of (files q) n = Some pc"
  by (cases a) (auto simp: setFile_def map_of_obj_set)

lemma streamed_partial_shown:
  assumes "scanStep (buffer (streamed p chunks)) = FilePartial n pc"
  shows "\<exists>q. active (streamed p chunks) = Some q \<and> map_of (files q) n = Some pc"
proof (cases chunks rule: rev_cases)
  case Nil
  then have "buffer (streamed p chunks) = []"
    by (simp add: streamed_def feedAll_def startState_def)
  with assms show ?thesis by (simp add: scanStep_empty)
next
  case (snoc cs c)
  let ?s = "(feedAll (startState (Some (p\<lparr>review := emptyStructuredReview\<rparr>))) cs)"
  have fin: "streamed p chunks = whileLoop (?s\<lparr>buffer := buffer ?s @ c\<rparr>)"
    using snoc by (simp add: streamed_def feedAll_def feed_def)
  from assms obtain a where a: "active (streamed p chunks) = setFile n pc a"
    unfolding fin using whileLoop_partial_active by blast
  obtain fs where fs: "active (streamed p chunks) =
      Some (p\<lparr>review := emptyStructuredReview, files := fs\<rparr>)"
    using streamed_active by blast
  have "setFile n pc a = Some (p\<lparr>review := emptyStructuredReview, files := fs\<rparr>)"
    using a fs by simp
  then have "map_of (files (p\<lparr>review := emptyStructuredReview, files := fs\<rparr>)) n = Some pc"
    by (rule setFile_lookup)
  with fs show ?thesis by blast
qed

lemma map_of_fold_obj_set:
  "map_of (fold (\<lambda>(k, v) acc. obj_set acc k v) b old) = map_of old ++ map_of (rev b)"
proof (induction b arbitrary: old)
  case Nil
  show ?case by simp
next
  case (Cons kv b)
  obtain k v where kv: "kv = (k, v)" by (cases kv)
  have "map_of (fold (\<lambda>(k, v) acc. obj_set acc k v) (kv # b) old) =
      map_of (obj_set old k v) ++ map_of (rev b)"
    using Cons.IH[of "obj_set old k v"] kv by simp
  also have "map_of (obj_set old k v) = map_of old ++ map_of [(k, v)]"
    by (simp add: map_of_obj_set)
  also have "(map_of old ++ map_of [(k, v)]) ++ map_of (rev b) = map_of old ++ map_of (rev (kv # b))"
    using kv by (simp only: rev.simps map_of_append map_add_assoc)
  finally show ?case .
qed

lemma obj_set_distinct: "distinct (map fst xs) \<Longrightarrow> distinct (map fst (obj_set xs k v))"
  by (simp add: keys_obj_set addKey_def)

lemma map_of_rev_distinct: "distinct (map fst xs) \<Longrightarrow> map_of (rev xs) = map_of xs"
  by (rule map_of_inject_set[THEN iffD2]) (simp_all add: rev_map[symmetric])

lemma whileLoop_recorded: "recorded st \<Longrightarrow> recorded (whileLoop st)"
proof (induction st rule: whileLoop.induct)
  case (1 st)
  show ?case
  proof (cases "\<exists>p code rest. scanStep (buffer st) = FileDone p code rest")
    case True
    then obtain p code rest where fd: "scanStep (buffer st) = FileDone p code rest" by blast
    have "recorded (st\<lparr>updatedFiles := obj_set (updatedFiles st) p code,
                         completions := completions st @ [(p, code)],
                         active := setFile p code (active st),
                         buffer := rest\<rparr>)"
      using "1.prems" by (simp add: recorded_def obj_set_distinct map_of_obj_set)
    from "1.IH"[OF fd this] show ?thesis
      using whileLoop_done[OF fd] by simp
  next
    case False
    then have "parsed (whileLoop st) = parsed st"
      by (intro whileLoop_not_done) simp
    then show ?thesis using "1.prems" by (simp add: parsed_def recorded_def)
  qed
qed

lemma feedAll_recorded: "recorded st \<Longrightarrow> recorded (feedAll st chunks)"
proof (induction chunks arbitrary: st)
  case Nil
  then show ?case by (simp add: feedAll_def)
next
  case (Cons c cs)
  have "recorded (feed st c)"
    unfolding feed_def by (rule whileLoop_recorded) (use Cons.prems in \<open>simp add: recorded_def\<close>)
  from Cons.IH[OF this] show ?case by (simp add: feedAll_def)
qed

lemma streamed_recorded: "recorded (streamed p chunks)"
  unfolding streamed_def by (rule feedAll_recorded) (simp add: recorded_def startState_def)

lemma committed_lookup:
  "map_of (obj_spread old (updatedFiles (streamed p chunks))) =
     map_of old ++ map_of (rev (completions (streamed p chunks)))"
proof -
  have r: "recorded (streamed p chunks)" by (rule streamed_recorded)
  have "map_of (obj_spread old (updatedFiles (streamed p chunks))) =
      map_of old ++ map_of (rev (updatedFiles (streamed p chunks)))"
    unfolding obj_spread_def by (rule map_of_fold_obj_set)
  also have "map_of (rev (updatedFiles (streamed p chunks))) = map_of (updatedFiles (streamed p chunks))"
    using r by (intro map_of_rev_distinct) (simp add: recorded_def)
  also have "\<dots> = map_of (rev (completions (streamed p chunks)))"
    using r by (simp add: recorded_def)
  finally show ?thesis .
qed

lemma scanStep_partial_not_blank:
  "scanStep b = FilePartial n pc \<Longrightarrow> trim b \<noteq> []"
  using scanStep_blank[of b] by auto

text \<open>
  C2, as the code has it. There is no step at the end of the stream. When the stream
  ends with a file open (the rest of the buffer is a header and content with no
  terminator), the active project showed the content so far under that path while the
  stream ran, but the project that is committed and saved has the files from before the
  attempt overwritten by the completed blocks only: a path that was never completed
  keeps its old content or stays absent.
\<close>

theorem handleModification_open_file:
  assumes "attempts st p"
    and "modifyCodeStream (modificationPrompt st p) p = Fragments chunks None"
    and "scanStep (buffer (streamed p chunks)) = FilePartial name partialCode"
    and "analyzeChanges (files p) (obj_spread (files p) (updatedFiles (streamed p chunks))) =
           Inr (newReview, summary)"
  shows "(\<exists>q. active (streamed p chunks) = Some q \<and> map_of (files q) name = Some partialCode) \<and>
         handleModification modifyCodeStream analyzeChanges storeAccepts st =
           (saveProjects storeAccepts
              (map (\<lambda>q. if proj_id q = proj_id p
                        then p\<lparr>files := obj_spread (files p) (updatedFiles (streamed p chunks)),
                               review := newReview\<rparr>
                        else q) (projects st))
              (st\<lparr>error := None, changeSummary := None,
                  activeProject := Some (p\<lparr>review := emptyStructuredReview\<rparr>)\<rparr>))
           \<lparr>activeProject :=
              Some (p\<lparr>files := obj_spread (files p) (updatedFiles (streamed p chunks)),
                      review := newReview\<rparr>),
            changeSummary := Some summary,
            selectedSuggestions := {},
            customModificationPrompt := []\<rparr> \<and>
         map_of (obj_spread (files p) (updatedFiles (streamed p chunks))) =
           map_of (files p) ++ map_of (rev (completions (streamed p chunks))) \<and>
         (name \<notin> set (map fst (completions (streamed p chunks))) \<longrightarrow>
            map_of (obj_spread (files p) (updatedFiles (streamed p chunks))) name =
              map_of (files p) name)"
proof -
  have shown: "\<exists>q. active (streamed p chunks) = Some q \<and> map_of (files q) name = Some partialCode"
    by (rule streamed_partial_shown[OF assms(3)])
  have nb: "(trim (buffer (streamed p chunks)) = []) = False"
    using scanStep_partial_not_blank[OF assms(3)] by simp
  have res: "handleModification modifyCodeStream analyzeChanges storeAccepts st =
           (saveProjects storeAccepts
              (map (\<lambda>q. if proj_id q = proj_id p
                        then p\<lparr>files := obj_spread (files p) (updatedFiles (streamed p chunks)),
                               review := newReview\<rparr>
                        else q) (projects st))
              (st\<lparr>error := None, changeSummary := None,
                  activeProject := Some (p\<lparr>review := emptyStructuredReview\<rparr>)\<rparr>))
           \<lparr>activeProject :=
              Some (p\<lparr>files := obj_spread (files p) (updatedFiles (streamed p chunks)),
                      review := newReview\<rparr>),
            changeSummary := Some summary,
            selectedSuggestions := {},
            customModificationPrompt := []\<rparr>"
    unfolding handleModification_attempt[OF assms(1)]
    by (simp add: assms(2) assms(4) Let_def nb)
  have lk: "map_of (obj_spread (files p) (updatedFiles (streamed p chunks))) =
           map_of (files p) ++ map_of (rev (completions (streamed p chunks)))"
    by (rule committed_lookup)
  have old: "name \<notin> set (map fst (completions (streamed p chunks))) \<longrightarrow>
            map_of (obj_spread (files p) (updatedFiles (streamed p chunks))) name =
              map_of (files p) name"
  proof
    assume "name \<notin> set (map fst (completions (streamed p chunks)))"
    then have "map_of (rev (completions (streamed p chunks))) name = None"
      by (simp add: map_of_eq_None_iff)
    then show "map_of (obj_spread (files p) (updatedFiles (streamed p chunks))) name =
              map_of (files p) name"
      by (simp add: lk map_add_def)
  qed
  show ?thesis
    by (intro conjI shown res lk old)
qed

lemma demo_streamed_closed_open:
  "streamed demoProject demoChunks =
     \<lparr>buffer = ''\<newline>--FILE_START: B.java--\<newline>partial'',
      updatedFiles = [(''A.java'', ''v2'')], completions = [(''A.java'', ''v2'')],
      active = Some (demoProject\<lparr>review := emptyStructuredReview,
                 files := [(''A.java'', ''v2''), (''B.java'', ''\<newline>partial'')]\<rparr>)\<rparr>"
  by (simp add: demoChunks_def parser_eval demoProject_def)

theorem handleModification_open_file_witness:
  "attempts demoState demoProject \<and>
   scanStep (buffer (streamed demoProject demoChunks)) = FilePartial ''B.java'' ''\<newline>partial'' \<and>
   map_option (\<lambda>q. map_of (files q) ''B.java'') (active (streamed demoProject demoChunks)) =
     Some (Some ''\<newline>partial'') \<and>
   completions (streamed demoProject demoChunks) = [(''A.java'', ''v2'')] \<and>
   activeProject (handleModification (\<lambda>_ _. Fragments demoChunks None)
       (\<lambda>_ _. Inr (demoReview2, ''A changed'')) (\<lambda>_. True) demoState) =
     Some (demoProject\<lparr>files := [(''A.java'', ''v2'')], review := demoReview2\<rparr>) \<and>
   map_of (obj_spread (files demoProject) (updatedFiles (streamed demoProject demoChunks)))
     ''B.java'' = None"
proof -
  have s: "(\<lambda>_ _. Fragments demoChunks None) (modificationPrompt demoState demoProject) demoProject =
      Fragments demoChunks None" by simp
  have o: "scanStep (buffer (streamed demoProject demoChunks)) =
      FilePartial ''B.java'' ''\<newline>partial''"
    by (simp add: demo_streamed_closed_open) (simp add: parser_eval)
  have a: "(\<lambda>_ _. Inr (demoReview2, ''A changed'')) (files demoProject)
      (obj_spread (files demoProject) (updatedFiles (streamed demoProject demoChunks))) =
      Inr (demoReview2, ''A changed'')" by simp
  note inst = handleModification_open_file[OF demo_attempts s o a, where storeAccepts = "\<lambda>_. True"]
  have u: "updatedFiles (streamed demoProject demoChunks) = [(''A.java'', ''v2'')]"
    and c: "completions (streamed demoProject demoChunks) = [(''A.java'', ''v2'')]"
    by (simp_all add: demo_streamed_closed_open)
  have sp: "obj_spread (files demoProject) [(''A.java'', ''v2'')] = [(''A.java'', ''v2'')]"
    by (simp add: obj_spread_def demoProject_def)
  from inst obtain q where q: "active (streamed demoProject demoChunks) = Some q"
    "map_of (files q) ''B.java'' = Some ''\<newline>partial''"
    by blast
  then have shown: "map_option (\<lambda>q. map_of (files q) ''B.java'')
      (active (streamed demoProject demoChunks)) = Some (Some ''\<newline>partial'')"
    by simp
  from inst have "handleModification (\<lambda>_ _. Fragments demoChunks None)
       (\<lambda>_ _. Inr (demoReview2, ''A changed'')) (\<lambda>_. True) demoState =
     (saveProjects (\<lambda>_. True)
              (map (\<lambda>q. if proj_id q = proj_id demoProject
                        then demoProject\<lparr>files := obj_spread (files demoProject)
                                 (updatedFiles (streamed demoProject demoChunks)),
                               review := demoReview2\<rparr>
                        else q) (projects demoState))
              (demoState\<lparr>error := None, changeSummary := None,
                  activeProject := Some (demoProject\<lparr>review := emptyStructuredReview\<rparr>)\<rparr>))
           \<lparr>activeProject :=
              Some (demoProject\<lparr>files := obj_spread (files demoProject)
                        (updatedFiles (streamed demoProject demoChunks)),
                      review := demoReview2\<rparr>),
            changeSummary := Some ''A changed'',
            selectedSuggestions := {},
            customModificationPrompt := []\<rparr>"
    by (rule conjunct1[OF conjunct2])
  then have committed: "activeProject (handleModification (\<lambda>_ _. Fragments demoChunks None)
       (\<lambda>_ _. Inr (demoReview2, ''A changed'')) (\<lambda>_. True) demoState) =
     Some (demoProject\<lparr>files := [(''A.java'', ''v2'')], review := demoReview2\<rparr>)"
    by (simp add: u sp)
  from inst have "''B.java'' \<notin> set (map fst (completions (streamed demoProject demoChunks))) \<longrightarrow>
      map_of (obj_spread (files demoProject) (updatedFiles (streamed demoProject demoChunks)))
        ''B.java'' = map_of (files demoProject) ''B.java''"
    by (rule conjunct2[OF conjunct2[OF conjunct2]])
  then have absent: "map_of (obj_spread (files demoProject)
      (updatedFiles (streamed demoProject demoChunks))) ''B.java'' = None"
    by (simp add: c) (simp add: demoProject_def)
  show ?thesis
    by (intro conjI demo_attempts o shown c committed absent)
qed

lemma demo_streamed_open:
  "streamed demoProject [''--FILE_START: X--\<newline>partial conten''] =
     \<lparr>buffer = ''--FILE_START: X--\<newline>partial conten'', updatedFiles = [], completions = [],
      active = Some (demoProject\<lparr>review := emptyStructuredReview,
                 files := [(''A.java'', ''v1''), (''X'', ''\<newline>partial conten'')]\<rparr>)\<rparr>"
  by (simp add: parser_eval demoProject_def)

text \<open>
  The claim C2 fails on its own example: the stream ends inside the file \<open>X\<close>. While it
  ran, the active project showed the partial content; the committed project has no
  \<open>X\<close>, and nothing was completed.
\<close>

theorem handleModification_drops_open_file:
  "map_option (\<lambda>q. map_of (files q) ''X'')
     (active (streamed demoProject [''--FILE_START: X--\<newline>partial conten''])) =
     Some (Some ''\<newline>partial conten'') \<and>
   completions (streamed demoProject [''--FILE_START: X--\<newline>partial conten'']) = [] \<and>
   map_option (\<lambda>q. map_of (files q) ''X'')
     (activeProject (handleModification
       (\<lambda>_ _. Fragments [''--FILE_START: X--\<newline>partial conten''] None)
       (\<lambda>_ _. Inr (demoReview2, ''No changes'')) (\<lambda>_. True) demoState)) = Some None \<and>
   map (\<lambda>q. map_of (files q) ''X'')
     (projects (handleModification
       (\<lambda>_ _. Fragments [''--FILE_START: X--\<newline>partial conten''] None)
       (\<lambda>_ _. Inr (demoReview2, ''No changes'')) (\<lambda>_. True) demoState)) = [None]"
  by (simp add: handleModification_attempt[OF demo_attempts] demo_streamed_open
      saveProjects_def trim_def is_ws_def obj_spread_def Let_def)
    (simp add: demoState_def demoProject_def Let_def)

section \<open>handleGenerateApp: a file that fails\<close>

lemma genFiles_generateOne:
  "genFiles (generateOne gen appPlan file g) =
     obj_set (genFiles g) (path file) (fileContent (gen appPlan file))"
proof (cases "gen appPlan file")
  case (Fragments chunks ending)
  have sc: "fst (streamChunks name code chunks a) = code @ concat chunks" for name code a
    by (induction chunks arbitrary: code a) simp_all
  obtain code proj where s: "streamChunks (path file) [] chunks (genActive g) = (code, proj)"
    by (cases "streamChunks (path file) [] chunks (genActive g)")
  then have "code = concat chunks" using sc[of "path file" "[]" "genActive g"] by simp
  then show ?thesis using Fragments s
    by (cases ending) (simp_all add: generateOne_def)
qed

lemma map_of_fold_generateOne:
  "map_of (genFiles (fold (generateOne gen appPlan) fs g)) =
     map_of (rev (map (\<lambda>f. (path f, fileContent (gen appPlan f))) fs) @ genFiles g)"
proof (induction fs arbitrary: g)
  case Nil
  show ?case by simp
next
  case (Cons f fs)
  have "map_of (genFiles (generateOne gen appPlan f g)) =
      (map_of (genFiles g))(path f \<mapsto> fileContent (gen appPlan f))"
    by (simp add: genFiles_generateOne map_of_obj_set)
  then show ?case
    by (simp add: Cons.IH fun_eq_iff map_add_def split: option.splits)
qed

lemma keys_fold_generateOne:
  "set (map fst (genFiles (fold (generateOne gen appPlan) fs g))) =
     set (map fst (genFiles g)) \<union> set (map path fs)"
proof (induction fs arbitrary: g)
  case Nil
  show ?case by simp
next
  case (Cons f fs)
  have "set (map fst (genFiles (generateOne gen appPlan f g))) =
      insert (path f) (set (map fst (genFiles g)))"
    by (simp add: genFiles_generateOne keys_obj_set addKey_def) auto
  then show ?case using Cons.IH[of "generateOne gen appPlan f g"] by auto
qed

lemma map_of_generated_distinct:
  assumes "distinct (map path fs)" "f \<in> set fs"
  shows "map_of (rev (map (\<lambda>f. (path f, fileContent (gen appPlan f))) fs)) (path f) =
     Some (fileContent (gen appPlan f))"
proof -
  let ?kvs = "map (\<lambda>f. (path f, fileContent (gen appPlan f))) fs"
  have d: "distinct (map fst (rev ?kvs))"
    using assms(1) by (simp add: rev_map[symmetric] comp_def)
  have "(path f, fileContent (gen appPlan f)) \<in> set (rev ?kvs)"
    using assms(2) by auto
  then show ?thesis by (rule map_of_is_SomeI[OF d])
qed

lemma fileContent_cases:
  "fileContent s =
     (case s of
        Fragments delivered None \<Rightarrow> concat delivered
      | Fragments delivered (Some thrown) \<Rightarrow>
          ''// Error generating code for this file. Please try modifying it.'')"
proof (cases s)
  case (Fragments delivered ending)
  then show ?thesis by (cases ending) (simp_all add: errorMsg_def)
qed

text \<open>
  C9. Whatever streams fail, the walk over the plan stores an entry for every path of
  the plan: the whole code of a file whose stream ended, and for a file whose stream
  threw the visible comment line \<open>// Error generating code for this file. Please try
  modifying it.\<close> (the last file of a path counts when a path is listed twice). The
  review is then requested on exactly these files, and its answer alone decides between
  the committed project and the error.
\<close>

theorem handleGenerateApp_file_failure:
  assumes "trim idea \<noteq> []" and "generateAppPlan idea = Inr appPlan"
  shows
    "(let initialProject = \<lparr>proj_id = newId, prompt = idea, plan = appPlan, files = [],
                           review = emptyStructuredReview, createdAt = now\<rparr>;
          g = generateAll generateFileCodeStream appPlan initialProject
      in map_of (genFiles g) =
           map_of (rev (map (\<lambda>f. (path f, fileContent (generateFileCodeStream appPlan f)))
                          (fileStructure appPlan))) \<and>
         set (map fst (genFiles g)) = set (map path (fileStructure appPlan)) \<and>
         fileContent (Fragments chunks (Some message)) =
           ''// Error generating code for this file. Please try modifying it.'' \<and>
         (distinct (map path (fileStructure appPlan)) \<longrightarrow>
            (\<forall>f \<in> set (fileStructure appPlan).
               map_of (genFiles g) (path f) =
                 Some (case generateFileCodeStream appPlan f of
                         Fragments delivered None \<Rightarrow> concat delivered
                       | Fragments delivered (Some thrown) \<Rightarrow>
                           ''// Error generating code for this file. Please try modifying it.''))) \<and>
         handleGenerateApp generateAppPlan generateFileCodeStream reviewCode storeAccepts
             newId now idea st =
           (case reviewCode (genFiles g) of
              Inl message \<Rightarrow>
                st\<lparr>error := Some (generationError message), changeSummary := None,
                   activeProject := genActive g\<rparr>
            | Inr newReview \<Rightarrow>
                (saveProjects storeAccepts
                   (projects st @ [initialProject\<lparr>files := genFiles g, review := newReview\<rparr>])
                   (st\<lparr>error := None, changeSummary := None\<rparr>))
                \<lparr>activeProject := Some (initialProject\<lparr>files := genFiles g, review := newReview\<rparr>)\<rparr>))"
proof -
  define initialProject where "initialProject = \<lparr>proj_id = newId, prompt = idea, plan = appPlan,
      files = [], review = emptyStructuredReview, createdAt = now\<rparr>"
  define g where "g = generateAll generateFileCodeStream appPlan initialProject"
  have m: "map_of (genFiles g) =
           map_of (rev (map (\<lambda>f. (path f, fileContent (generateFileCodeStream appPlan f)))
                          (fileStructure appPlan)))"
    by (simp add: g_def generateAll_def map_of_fold_generateOne)
  have k: "set (map fst (genFiles g)) = set (map path (fileStructure appPlan))"
    by (simp add: g_def generateAll_def keys_fold_generateOne del: set_map)
  have e: "fileContent (Fragments chunks (Some message)) =
           ''// Error generating code for this file. Please try modifying it.''"
    by (simp add: errorMsg_def)
  have d: "distinct (map path (fileStructure appPlan)) \<longrightarrow>
            (\<forall>f \<in> set (fileStructure appPlan).
               map_of (genFiles g) (path f) =
                 Some (case generateFileCodeStream appPlan f of
                         Fragments delivered None \<Rightarrow> concat delivered
                       | Fragments delivered (Some thrown) \<Rightarrow>
                           ''// Error generating code for this file. Please try modifying it.''))"
    using map_of_generated_distinct[of "fileStructure appPlan" _ generateFileCodeStream appPlan]
    by (simp only: m fileContent_cases) blast
  have h: "handleGenerateApp generateAppPlan generateFileCodeStream reviewCode storeAccepts
             newId now idea st =
           (case reviewCode (genFiles g) of
              Inl message \<Rightarrow>
                st\<lparr>error := Some (generationError message), changeSummary := None,
                   activeProject := genActive g\<rparr>
            | Inr newReview \<Rightarrow>
                (saveProjects storeAccepts
                   (projects st @ [initialProject\<lparr>files := genFiles g, review := newReview\<rparr>])
                   (st\<lparr>error := None, changeSummary := None\<rparr>))
                \<lparr>activeProject := Some (initialProject\<lparr>files := genFiles g, review := newReview\<rparr>)\<rparr>)"
    using assms unfolding handleGenerateApp_def g_def initialProject_def
    by (simp add: Let_def split: sum.splits)
  show ?thesis
    using m k e d h unfolding g_def initialProject_def Let_def by blast
qed

lemma demo_generated:
  "genFiles (generateAll demoGenerate demoPlan3 demoInitial) =
     [(''A.java'', ''code of A.java''), (''B.xml'',
        ''// Error generating code for this file. Please try modifying it.''), (''C.gradle'', ''code of C.gradle'')]"
  by (simp add: generateAll_def generateOne_def demoGenerate_def demoPlan3_def fp_def setFile_def
      errorMsg_def)

theorem handleGenerateApp_file_failure_witness:
  "trim ''a notes app'' \<noteq> [] \<and>
   distinct (map path (fileStructure demoPlan3)) \<and>
   demoGenerate demoPlan3 (fp ''B.xml'' ''layout'') = Fragments [''<Lin''] (Some ''quota'') \<and>
   map_of (genFiles (generateAll demoGenerate demoPlan3 demoInitial)) ''B.xml'' =
     Some ''// Error generating code for this file. Please try modifying it.'' \<and>
   map_of (genFiles (generateAll demoGenerate demoPlan3 demoInitial)) ''C.gradle'' =
     Some ''code of C.gradle'' \<and>
   handleGenerateApp (\<lambda>_. Inr demoPlan3) demoGenerate (\<lambda>_. Inr demoReview2) (\<lambda>_. True)
       ''proj_2'' ''2025-02-02'' ''a notes app'' demoState =
     demoState\<lparr>projects := [demoProject,
                   demoInitial\<lparr>files := [(''A.java'', ''code of A.java''), (''B.xml'',
        ''// Error generating code for this file. Please try modifying it.''),
                                          (''C.gradle'', ''code of C.gradle'')],
                               review := demoReview2\<rparr>],
               activeProject :=
                 Some (demoInitial\<lparr>files := [(''A.java'', ''code of A.java''), (''B.xml'',
        ''// Error generating code for this file. Please try modifying it.''),
                                             (''C.gradle'', ''code of C.gradle'')],
                                  review := demoReview2\<rparr>)\<rparr>"
proof -
  have t: "trim ''a notes app'' \<noteq> []" by (simp add: trim_def is_ws_def)
  have p: "(\<lambda>_. Inr demoPlan3) ''a notes app'' = (Inr demoPlan3 :: string + AppPlan)" by simp
  have d: "distinct (map path (fileStructure demoPlan3))" by (simp add: demoPlan3_def fp_def)
  have b: "demoGenerate demoPlan3 (fp ''B.xml'' ''layout'') = Fragments [''<Lin''] (Some ''quota'')"
    by (simp add: demoGenerate_def fp_def)
  have c: "demoGenerate demoPlan3 (fp ''C.gradle'' ''build'') = Fragments [''code of '', ''C.gradle''] None"
    by (simp add: demoGenerate_def fp_def)
  have memB: "fp ''B.xml'' ''layout'' \<in> set (fileStructure demoPlan3)"
    and memC: "fp ''C.gradle'' ''build'' \<in> set (fileStructure demoPlan3)"
    by (simp_all add: demoPlan3_def)
  note inst = handleGenerateApp_file_failure[OF t p, where newId = "''proj_2''"
      and now = "''2025-02-02''" and generateFileCodeStream = demoGenerate
      and reviewCode = "\<lambda>_. Inr demoReview2" and storeAccepts = "\<lambda>_. True" and st = demoState,
      unfolded Let_def, folded demoInitial_def]
  from inst d memB have fb: "map_of (genFiles (generateAll demoGenerate demoPlan3 demoInitial))
      (path (fp ''B.xml'' ''layout'')) =
        Some (case demoGenerate demoPlan3 (fp ''B.xml'' ''layout'') of
                Fragments delivered None \<Rightarrow> concat delivered
              | Fragments delivered (Some thrown) \<Rightarrow>
                  ''// Error generating code for this file. Please try modifying it.'')"
    by blast
  from inst d memC have fc: "map_of (genFiles (generateAll demoGenerate demoPlan3 demoInitial))
      (path (fp ''C.gradle'' ''build'')) =
        Some (case demoGenerate demoPlan3 (fp ''C.gradle'' ''build'') of
                Fragments delivered None \<Rightarrow> concat delivered
              | Fragments delivered (Some thrown) \<Rightarrow>
                  ''// Error generating code for this file. Please try modifying it.'')"
    by blast
  have fb': "map_of (genFiles (generateAll demoGenerate demoPlan3 demoInitial)) ''B.xml'' =
     Some ''// Error generating code for this file. Please try modifying it.''"
    using fb by (simp add: b) (simp add: fp_def)
  have fc': "map_of (genFiles (generateAll demoGenerate demoPlan3 demoInitial)) ''C.gradle'' =
      Some ''code of C.gradle''"
    using fc by (simp add: c) (simp add: fp_def)
  have h: "handleGenerateApp (\<lambda>_. Inr demoPlan3) demoGenerate (\<lambda>_. Inr demoReview2) (\<lambda>_. True)
       ''proj_2'' ''2025-02-02'' ''a notes app'' demoState =
     demoState\<lparr>projects := [demoProject,
                   demoInitial\<lparr>files := [(''A.java'', ''code of A.java''), (''B.xml'',
        ''// Error generating code for this file. Please try modifying it.''),
                                          (''C.gradle'', ''code of C.gradle'')],
                               review := demoReview2\<rparr>],
               activeProject :=
                 Some (demoInitial\<lparr>files := [(''A.java'', ''code of A.java''), (''B.xml'',
        ''// Error generating code for this file. Please try modifying it.''),
                                             (''C.gradle'', ''code of C.gradle'')],
                                  review := demoReview2\<rparr>)\<rparr>"
    using inst by (simp add: demo_generated saveProjects_def) (simp add: demoState_def)
  show ?thesis using t d b fb' fc' h by blast
qed

section \<open>handleImportProject: the identity of an imported project\<close>

lemma showNat_demo: "showNat 1703 = ''1703''"
  by (simp add: digit_def)

lemma readProp_getProp: "readProp v k = Inr x \<Longrightarrow> k \<noteq> ''length'' \<Longrightarrow> x = getProp v k"
  by (cases v) (simp_all split: if_splits)

lemma newProjectOf_props:
  assumes "newProjectOf metadata importedFiles nowMs now = Inr project"
  shows "map_of project ''id'' = Some (JStr (''proj_'' @ showNat nowMs)) \<and>
         map_of project ''createdAt'' = Some (JStr now) \<and>
         map_of project ''files'' = Some (filesValue importedFiles) \<and>
         map_of project ''review'' = Some (ensureStructuredReview (getProp metadata ''review'')) \<and>
         map_of project ''prompt'' = map_of (spreadOf metadata) ''prompt'' \<and>
         map_of project ''plan'' = map_of (spreadOf metadata) ''plan''"
proof -
  from assms obtain reviewValue where r: "readProp metadata ''review'' = Inr reviewValue"
    and p: "project = obj_set (obj_set (obj_set (obj_set (spreadOf metadata)
                 ''review'' (ensureStructuredReview reviewValue))
                 ''files'' (filesValue importedFiles))
                 ''id'' (JStr (''proj_'' @ showNat nowMs)))
                 ''createdAt'' (JStr now)"
    by (auto simp: newProjectOf_def split: sum.splits)
  have "reviewValue = getProp metadata ''review''"
    using r by (rule readProp_getProp) simp
  then show ?thesis
    unfolding p by (simp add: map_of_obj_set del: showNat.simps)
qed

text \<open>
  C10. Whenever the import builds a project, its \<open>id\<close> is \<open>proj_\<close> and the clock's
  reading, and its \<open>createdAt\<close> is the time of the import, whatever the archive says.
  Without a \<open>project.json\<close> the prompt is the fixed text and plan and review are the
  model's answer. With one, \<open>prompt\<close> and \<open>plan\<close> are those of the metadata, the
  review is the metadata's after \<open>ensureStructuredReview\<close>, and the files are those of
  the archive.
\<close>

theorem importProject_identity:
  assumes "importProject jsonParse analyzeImportedProject coerced nowMs now archive = Inr project"
  shows "map_of project ''id'' = Some (JStr (''proj_'' @ showNat nowMs)) \<and>
         map_of project ''createdAt'' = Some (JStr now) \<and>
         (case sort_cmp bySegments (projectJsonPaths archive) of
            [] \<Rightarrow>
              map_of project ''prompt'' = Some (JStr ''Project imported from a ZIP archive.'') \<and>
              map_of project ''files'' = Some (filesValue (rawFiles archive)) \<and>
              (\<exists>answer. analyzeImportedProject (rawFiles archive) = Inr answer \<and>
                 map_of project ''plan'' = Some (getProp answer ''plan'') \<and>
                 map_of project ''review'' = Some (getProp answer ''review''))
          | projectJsonPath # _ \<Rightarrow>
              (\<exists>metadataFile metadata.
                 zipFile archive projectJsonPath = Some metadataFile \<and>
                 jsonParse (entryContent metadataFile) = Inr metadata \<and>
                 map_of project ''prompt'' = map_of (spreadOf metadata) ''prompt'' \<and>
                 map_of project ''plan'' = map_of (spreadOf metadata) ''plan'' \<and>
                 map_of project ''review'' =
                   Some (ensureStructuredReview (getProp metadata ''review'')) \<and>
                 map_of project ''files'' =
                   Some (filesValue (projectFiles (rootDirOf projectJsonPath) projectJsonPath archive))))"
proof (cases "sort_cmp bySegments (projectJsonPaths archive)")
  case Nil
  then have inf: "inferredImport analyzeImportedProject nowMs now archive = Inr project"
    using assms by (simp add: importProject_def)
  then obtain answer planValue reviewValue where
    a: "analyzeImportedProject (rawFiles archive) = Inr answer" and
    pl: "readProp answer ''plan'' = Inr planValue" and
    rv: "readProp answer ''review'' = Inr reviewValue" and
    p: "project = [(''plan'', planValue), (''review'', reviewValue),
                   (''files'', filesValue (rawFiles archive)),
                   (''prompt'', JStr ''Project imported from a ZIP archive.''),
                   (''id'', JStr (''proj_'' @ showNat nowMs)),
                   (''createdAt'', JStr now)]"
    by (auto simp: inferredImport_def Let_def split: if_splits sum.splits)
  have "planValue = getProp answer ''plan''" using pl by (rule readProp_getProp) simp
  moreover have "reviewValue = getProp answer ''review''" using rv by (rule readProp_getProp) simp
  ultimately show ?thesis
    unfolding p using Nil a by (simp del: showNat.simps)
next
  case (Cons projectJsonPath rest)
  then have m: "metadataImport jsonParse coerced nowMs now projectJsonPath archive = Inr project"
    using assms by (simp add: importProject_def)
  then obtain metadataFile metadata where
    zf: "zipFile archive projectJsonPath = Some metadataFile" and
    js: "jsonParse (entryContent metadataFile) = Inr metadata" and
    np: "newProjectOf metadata (projectFiles (rootDirOf projectJsonPath) projectJsonPath archive)
           nowMs now = Inr project"
    by (auto simp: metadataImport_def Let_def split: option.splits sum.splits if_splits bool.splits)
  from newProjectOf_props[OF np] show ?thesis
    using Cons zf js by (simp del: showNat.simps)
qed

lemmas import_eval =
  importProject_def projectJsonPaths_def sort_cmp_def bySegments_def
  metadataImport_def inferredImport_def zipFile_def projectFiles_def rawFiles_def rootDirOf_def
  substringFrom_def Let_def newProjectOf_def filesValue_def showNat_demo
  ensureStructuredReview_def suffix_to_prefix

lemma demo_import_metadata:
  "importProject (\<lambda>_. Inr demoMetadata) (\<lambda>_. Inl ''unused'') (\<lambda>_. False) 1703 ''2025-03-03''
       demoArchive =
     Inr [(''id'', JStr ''proj_1703''), (''prompt'', JStr ''a notes app''),
          (''plan'', JObj [(''appName'', JStr ''Notes''), (''fileStructure'', JArr [])]),
          (''review'', legacyReview ''Looks fine.''), (''createdAt'', JStr ''2025-03-03''),
          (''files'', JObj [(''old/project.json'', JStr ''{}''), (''src/A.java'', JStr ''class A {}'')])]"
  by (simp add: import_eval demoArchive_def demoMetadata_def del: showNat.simps)

lemma demo_import_inferred:
  "importProject (\<lambda>_. Inl ''unused'') (\<lambda>_. Inr demoAnswer) (\<lambda>_. False) 1703 ''2025-03-03''
       rawArchive =
     Inr [(''plan'', JObj [(''appName'', JStr ''Notes'')]), (''review'', emptyReview),
          (''files'', JObj [(''src/A.java'', JStr ''class A {}''), (''README.md'', JStr ''# Notes'')]),
          (''prompt'', JStr ''Project imported from a ZIP archive.''),
          (''id'', JStr ''proj_1703''), (''createdAt'', JStr ''2025-03-03'')]"
  by (simp add: import_eval rawArchive_def demoAnswer_def del: showNat.simps)

theorem importProject_identity_witness:
  "importProject (\<lambda>_. Inr demoMetadata) (\<lambda>_. Inl ''unused'') (\<lambda>_. False) 1703 ''2025-03-03''
       demoArchive =
     Inr [(''id'', JStr ''proj_1703''), (''prompt'', JStr ''a notes app''),
          (''plan'', JObj [(''appName'', JStr ''Notes''), (''fileStructure'', JArr [])]),
          (''review'', legacyReview ''Looks fine.''), (''createdAt'', JStr ''2025-03-03''),
          (''files'', JObj [(''old/project.json'', JStr ''{}''), (''src/A.java'', JStr ''class A {}'')])] \<and>
   getProp demoMetadata ''id'' = JStr ''proj_1'' \<and>
   getProp demoMetadata ''createdAt'' = JStr ''1999-12-31'' \<and>
   map_of [(''id'', JStr ''proj_1703''), (''prompt'', JStr ''a notes app''),
          (''plan'', JObj [(''appName'', JStr ''Notes''), (''fileStructure'', JArr [])]),
          (''review'', legacyReview ''Looks fine.''), (''createdAt'', JStr ''2025-03-03''),
          (''files'', JObj [(''old/project.json'', JStr ''{}''), (''src/A.java'', JStr ''class A {}'')])]
     ''id'' = Some (JStr (''proj_'' @ showNat 1703)) \<and>
   importProject (\<lambda>_. Inl ''unused'') (\<lambda>_. Inr demoAnswer) (\<lambda>_. False) 1703 ''2025-03-03''
       rawArchive =
     Inr [(''plan'', JObj [(''appName'', JStr ''Notes'')]), (''review'', emptyReview),
          (''files'', JObj [(''src/A.java'', JStr ''class A {}''), (''README.md'', JStr ''# Notes'')]),
          (''prompt'', JStr ''Project imported from a ZIP archive.''),
          (''id'', JStr ''proj_1703''), (''createdAt'', JStr ''2025-03-03'')] \<and>
   map_of [(''plan'', JObj [(''appName'', JStr ''Notes'')]), (''review'', emptyReview),
          (''files'', JObj [(''src/A.java'', JStr ''class A {}''), (''README.md'', JStr ''# Notes'')]),
          (''prompt'', JStr ''Project imported from a ZIP archive.''),
          (''id'', JStr ''proj_1703''), (''createdAt'', JStr ''2025-03-03'')]
     ''createdAt'' = Some (JStr ''2025-03-03'')"
proof -
  have g: "getProp demoMetadata ''id'' = JStr ''proj_1''"
    "getProp demoMetadata ''createdAt'' = JStr ''1999-12-31''"
    by (simp_all add: demoMetadata_def)
  from importProject_identity[OF demo_import_metadata]
  have a: "map_of [(''id'', JStr ''proj_1703''), (''prompt'', JStr ''a notes app''),
          (''plan'', JObj [(''appName'', JStr ''Notes''), (''fileStructure'', JArr [])]),
          (''review'', legacyReview ''Looks fine.''), (''createdAt'', JStr ''2025-03-03''),
          (''files'', JObj [(''old/project.json'', JStr ''{}''), (''src/A.java'', JStr ''class A {}'')])]
     ''id'' = Some (JStr (''proj_'' @ showNat 1703))"
    by (rule conjunct1)
  from importProject_identity[OF demo_import_inferred]
  have b: "map_of [(''plan'', JObj [(''appName'', JStr ''Notes'')]), (''review'', emptyReview),
          (''files'', JObj [(''src/A.java'', JStr ''class A {}''), (''README.md'', JStr ''# Notes'')]),
          (''prompt'', JStr ''Project imported from a ZIP archive.''),
          (''id'', JStr ''proj_1703''), (''createdAt'', JStr ''2025-03-03'')]
     ''createdAt'' = Some (JStr ''2025-03-03'')"
    by (rule conjunct1[OF conjunct2])
  show ?thesis
    by (intro conjI demo_import_metadata demo_import_inferred g a b)
qed

end
